theory Spec2Isabelle
  imports Main "HOL-Library.Multiset" "HOL-Library.Sublist"
begin

section \<open>Spotify session manager and paginated track fetcher (backend/spotify\_auth.go)\<close>

text \<open>
  A shallow embedding of \<^verbatim>\<open>src/backend/spotify_auth.go\<close>. Go strings are byte
  sequences and are modelled as \<^typ>\<open>string\<close> (a list of 8-bit characters); Go's
  \<^verbatim>\<open>int\<close> and \<^verbatim>\<open>int64\<close> are modelled as \<^typ>\<open>int\<close>, with the one
  multiplication that can wrap written out. Everything outside the program (clock,
  files, network, random source) is a field of the record \<open>world\<close>; every function
  that touches it takes the world and returns the new one.
\<close>

subsection \<open>Errors\<close>

text \<open>
  \<open>os_error\<close> are the errors handed to the program by the operating system and the
  libraries (os, net, net/http, encoding/json, crypto/rand, and the repository's
  \<^verbatim>\<open>getSpotiDownloaderDir\<close>). The only distinction the program makes among them is
  \<^verbatim>\<open>errors.Is(err, os.ErrNotExist)\<close>. \<open>error\<close> adds the errors the program creates
  itself with \<^verbatim>\<open>errors.New\<close> and \<^verbatim>\<open>fmt.Errorf\<close>.
\<close>

datatype os_error = ErrNotExist | ErrOther string

datatype error =
    OSError os_error
  | ListenerFailed os_error
  | MissingStateOrCode
  | StateMismatch
  | NoTokenAvailable
  | MissingRefreshToken
  | NotAuthenticated
  | MissingClientCredentials
  | TokenExchangeFailed string
  | RefreshFailed string
  | NilPointerDereference
  | ContextDone
  | FetchPageFailed int error
  | FailedFetchingTracks int error

subsection \<open>encoding/base64\<close>

text \<open>
  The two encodings the program uses: \<^verbatim>\<open>base64.RawURLEncoding.EncodeToString\<close>
  (URL-safe alphabet, no padding) and \<^verbatim>\<open>base64.StdEncoding.DecodeString\<close> (standard
  alphabet, padding required, carriage returns and newlines ignored).
\<close>

definition encodeURL :: string where
  "encodeURL = ''ABCDEFGHIJKLMNOPQRSTUVWXYZabcdefghijklmnopqrstuvwxyz0123456789-_''"

definition sextet :: "nat \<Rightarrow> char" where
  "sextet n = encodeURL ! (n mod 64)"

fun RawURLEncoding_EncodeToString :: "string \<Rightarrow> string" where
  "RawURLEncoding_EncodeToString (a # b # c # rest) =
     (let n = of_char a * 65536 + of_char b * 256 + (of_char c :: nat)
      in [sextet (n div 262144), sextet (n div 4096), sextet (n div 64), sextet n])
     @ RawURLEncoding_EncodeToString rest"
| "RawURLEncoding_EncodeToString [a, b] =
     (let n = of_char a * 65536 + of_char b * (256 :: nat)
      in [sextet (n div 262144), sextet (n div 4096), sextet (n div 64)])"
| "RawURLEncoding_EncodeToString [a] =
     (let n = of_char a * (65536 :: nat)
      in [sextet (n div 262144), sextet (n div 4096)])"
| "RawURLEncoding_EncodeToString [] = []"

text \<open>The value of a character of the standard alphabet, \<open>None\<close> outside it.\<close>

definition decodeStd :: "char \<Rightarrow> nat option" where
  "decodeStd c =
     (let k = (of_char c :: nat) in
      if 65 \<le> k \<and> k \<le> 90 then Some (k - 65)
      else if 97 \<le> k \<and> k \<le> 122 then Some (k - 71)
      else if 48 \<le> k \<and> k \<le> 57 then Some (k + 4)
      else if k = 43 then Some 62
      else if k = 47 then Some 63
      else None)"

definition corrupt :: os_error where
  "corrupt = ErrOther ''illegal base64 data''"

text \<open>
  One quantum of four characters gives three bytes; the last quantum may end in one or
  two padding characters and then gives two bytes or one. Go's decoder is not strict:
  it does not check that the unused low bits of a padded quantum are zero.
\<close>

fun decodeQuanta :: "string \<Rightarrow> os_error + string" where
  "decodeQuanta [] = Inr []"
| "decodeQuanta (a # b # c # d # rest) =
     (case (decodeStd a, decodeStd b) of
        (Some x, Some y) \<Rightarrow>
          (if c = CHR ''='' then
             (if d = CHR ''='' \<and> rest = []
              then Inr [char_of ((x * 64 + y) div 16)]
              else Inl corrupt)
           else
             (case decodeStd c of
                None \<Rightarrow> Inl corrupt
              | Some z \<Rightarrow>
                  (if d = CHR ''='' then
                     (if rest = []
                      then Inr [char_of (((x * 64 + y) * 64 + z) div 1024),
                                char_of (((x * 64 + y) * 64 + z) div 4)]
                      else Inl corrupt)
                   else
                     (case decodeStd d of
                        None \<Rightarrow> Inl corrupt
                      | Some u \<Rightarrow>
                          (let n = ((x * 64 + y) * 64 + z) * 64 + u in
                           case decodeQuanta rest of
                             Inl e \<Rightarrow> Inl e
                           | Inr bs \<Rightarrow>
                               Inr (char_of (n div 65536) # char_of (n div 256)
                                    # char_of n # bs))))))
      | _ \<Rightarrow> Inl corrupt)"
| "decodeQuanta _ = Inl corrupt"

definition StdEncoding_DecodeString :: "string \<Rightarrow> os_error + string" where
  "StdEncoding_DecodeString s =
     decodeQuanta (filter (\<lambda>c. c \<noteq> CHR 0x0D \<and> c \<noteq> CHR 0x0A) s)"

subsection \<open>strings.TrimSpace\<close>

text \<open>
  \<^verbatim>\<open>strings.TrimSpace\<close> removes leading and trailing Unicode white space. On the
  bytes of a string these are the UTF-8 encodings of the code points below (tab, line
  feed, vertical tab, form feed, carriage return, space, U+0085, U+00A0, U+1680,
  U+2000 to U+200A, U+2028, U+2029, U+202F, U+205F, U+3000).
\<close>

definition spaceRunes :: "string list" where
  "spaceRunes =
     [[CHR 0x09], [CHR 0x0A], [CHR 0x0B], [CHR 0x0C], [CHR 0x0D], [CHR 0x20],
      [CHR 0xC2, CHR 0x85], [CHR 0xC2, CHR 0xA0], [CHR 0xE1, CHR 0x9A, CHR 0x80]]
     @ map (\<lambda>k. [CHR 0xE2, CHR 0x80, char_of (k :: nat)]) [128..<139]
     @ [[CHR 0xE2, CHR 0x80, CHR 0xA8], [CHR 0xE2, CHR 0x80, CHR 0xA9],
        [CHR 0xE2, CHR 0x80, CHR 0xAF], [CHR 0xE2, CHR 0x81, CHR 0x9F],
        [CHR 0xE3, CHR 0x80, CHR 0x80]]"

fun trimPrefix :: "string list \<Rightarrow> string \<Rightarrow> string" where
  "trimPrefix runes [] = []"
| "trimPrefix runes (c # cs) =
     (case find (\<lambda>p. prefix p (c # cs)) runes of
        None \<Rightarrow> c # cs
      | Some p \<Rightarrow> trimPrefix runes (drop (length p - 1) cs))"

definition TrimSpace :: "string \<Rightarrow> string" where
  "TrimSpace s = rev (trimPrefix (map rev spaceRunes) (rev (trimPrefix spaceRunes s)))"

subsection \<open>Data\<close>

record spotifyTokenStore =
  AccessToken :: string
  RefreshToken :: string
  ExpiresAt :: int
  Scope :: string
  TokenType :: string

text \<open>The anonymous struct \<^verbatim>\<open>tokenResp\<close> the token endpoint's JSON is decoded into.\<close>

record tokenResp =
  respAccessToken :: string
  ExpiresIn :: int
  respRefreshToken :: string
  respScope :: string
  respTokenType :: string

record spotifyUserProfile =
  ID :: string
  DisplayName :: string
  Email :: string
  Images :: "string list"

record SpotifyAuthStatus =
  Authenticated :: bool
  statusDisplayName :: string
  UserID :: string
  AvatarURL :: string
  statusExpiresAt :: int
  statusScope :: string

subsection \<open>The world outside the program\<close>

text \<open>
  A file of the application directory is absent, present with a content, present but
  read-only (it can be read; writing and removing it fail), or present but refused to
  this process (every read, write and removal fails).
\<close>

datatype 'a fnode = Absent | Present 'a | ReadOnly 'a | NoAccess

text \<open>
  The content of \<^verbatim>\<open>spotify_oauth.json\<close> as \<^verbatim>\<open>json.Unmarshal\<close> reads it: the JSON of
  a token record, or bytes that do not decode.
\<close>

datatype token_doc = TokenJSON spotifyTokenStore | NotJSON

record http_response =
  StatusCode :: nat
  Body :: string
  BodyJSON :: "os_error + tokenResp"

text \<open>
  The form a token request posts and the client credentials of its Basic
  authorization header.
\<close>

datatype token_request =
    AuthorizationCode string string string string string
  | RefreshGrant string string string

text \<open>
  A log of the calls the claims count: entries of the two token functions and every
  write of the token file. It is instrumentation; no function reads it.
\<close>

datatype call =
    CallExchange string string string
  | CallRefresh string
  | WroteTokenFile spotifyTokenStore

record world =
  clock :: int
  appDir :: "os_error + string"
  mkdirAllErr :: "os_error option"
  tokenFile :: "token_doc fnode"
  clientIDFile :: "string fnode"
  clientSecretFile :: "string fnode"
  tokenURLErr :: "os_error option"
  tokenEndpoint :: "token_request \<Rightarrow> os_error + http_response"
  profileEndpoint :: "string \<Rightarrow> os_error + spotifyUserProfile"
  randomErr :: "os_error option"
  randomBytes :: "nat \<Rightarrow> char"
  randomDrawn :: nat
  busyPorts :: "nat list"
  ephemeralPort :: "nat option"
  sha256_Sum256 :: "string \<Rightarrow> string"
  calls :: "call list"

text \<open>
  \<open>clock\<close> is the wall clock in nanoseconds since the epoch; \<open>appDir\<close> is what
  \<^verbatim>\<open>getSpotiDownloaderDir()\<close> returns (that function is not in this file);
  \<open>mkdirAllErr\<close> is the outcome of \<^verbatim>\<open>os.MkdirAll\<close> on that directory; \<open>tokenURLErr\<close>
  is the error of \<^verbatim>\<open>http.NewRequest\<close> on the constant \<^verbatim>\<open>spotifyTokenURL\<close> (declared
  in another file); \<open>tokenEndpoint\<close> is \<^verbatim>\<open>http.DefaultClient.Do\<close> on a token request;
  \<open>profileEndpoint\<close> is \<^verbatim>\<open>getJSON\<close> on \<^verbatim>\<open>spotifyMeURL\<close> with an access token;
  \<open>randomBytes\<close> is the stream \<^verbatim>\<open>crypto/rand\<close> reads, \<open>randomDrawn\<close> how much of it
  has been read, \<open>randomErr\<close> the error of \<^verbatim>\<open>rand.Read\<close>; \<open>busyPorts\<close> are the
  loopback ports in use and \<open>ephemeralPort\<close> the port the system hands out for port 0;
  \<open>sha256_Sum256\<close> is the hash function of \<^verbatim>\<open>crypto/sha256\<close>, taken as given.
\<close>

definition time_Now_Unix :: "world \<Rightarrow> int" where
  "time_Now_Unix w = clock w div 1000000000"

text \<open>Two's-complement wrap-around of a 64-bit signed integer.\<close>

definition wrap64 :: "int \<Rightarrow> int" where
  "wrap64 x = (x + 9223372036854775808) mod 18446744073709551616 - 9223372036854775808"

text \<open>
  \<^verbatim>\<open>time.Now().Add(time.Duration(expiresIn) * time.Second).Unix()\<close>: the product is an
  \<^verbatim>\<open>int64\<close> of nanoseconds and wraps.
\<close>

definition expiryAfter :: "world \<Rightarrow> int \<Rightarrow> int" where
  "expiryAfter w expiresIn = (clock w + wrap64 (expiresIn * 1000000000)) div 1000000000"

definition permissionDenied :: os_error where
  "permissionDenied = ErrOther ''permission denied''"

definition os_ReadFile :: "'a fnode \<Rightarrow> os_error + 'a" where
  "os_ReadFile f =
     (case f of Absent \<Rightarrow> Inl ErrNotExist | NoAccess \<Rightarrow> Inl permissionDenied
      | Present d \<Rightarrow> Inr d | ReadOnly d \<Rightarrow> Inr d)"

definition os_Remove :: "'a fnode \<Rightarrow> os_error option \<times> 'a fnode" where
  "os_Remove f =
     (case f of Absent \<Rightarrow> (Some ErrNotExist, Absent)
      | NoAccess \<Rightarrow> (Some permissionDenied, NoAccess)
      | ReadOnly d \<Rightarrow> (Some permissionDenied, ReadOnly d)
      | Present d \<Rightarrow> (None, Absent))"

definition os_WriteFile :: "'a fnode \<Rightarrow> 'a \<Rightarrow> os_error option \<times> 'a fnode" where
  "os_WriteFile f d =
     (case f of NoAccess \<Rightarrow> (Some permissionDenied, NoAccess)
      | ReadOnly d0 \<Rightarrow> (Some permissionDenied, ReadOnly d0)
      | _ \<Rightarrow> (None, Present d))"

definition json_Unmarshal :: "token_doc \<Rightarrow> os_error + spotifyTokenStore" where
  "json_Unmarshal d =
     (case d of NotJSON \<Rightarrow> Inl (ErrOther ''invalid JSON'') | TokenJSON t \<Rightarrow> Inr t)"

text \<open>
  \<^verbatim>\<open>encoding/json\<close> coerces the strings it writes to valid UTF-8. A byte below
  \<^verbatim>\<open>utf8.RuneSelf\<close> is written as it is or escaped, and so is a valid encoding of a
  rune; decoding undoes the escapes. A byte of \<^verbatim>\<open>0x80\<close> or more at which
  \<^verbatim>\<open>utf8.DecodeRuneInString\<close> returns \<^verbatim>\<open>(RuneError, 1)\<close> is written as the escape
  \<^verbatim>\<open>\ufffd\<close>, which decodes to the three bytes of U+FFFD.

  \<open>utf8_first\<close> is the table \<^verbatim>\<open>first\<close> of \<^verbatim>\<open>unicode/utf8\<close> for the bytes that start an
  encoding of two to four bytes: the size of the encoding and the range accepted for
  its second byte. \<open>utf8_DecodeRuneInString\<close> gives the size of the valid encoding at
  the head of a string that starts with a byte of \<^verbatim>\<open>0x80\<close> or more, and \<open>None\<close>
  where Go returns \<^verbatim>\<open>(RuneError, 1)\<close>.
\<close>

definition utf8_first :: "nat \<Rightarrow> (nat \<times> nat \<times> nat) option" where
  "utf8_first b =
     (if 0xC2 \<le> b \<and> b \<le> 0xDF then Some (2, 0x80, 0xBF)
      else if b = 0xE0 then Some (3, 0xA0, 0xBF)
      else if b = 0xED then Some (3, 0x80, 0x9F)
      else if 0xE1 \<le> b \<and> b \<le> 0xEF then Some (3, 0x80, 0xBF)
      else if b = 0xF0 then Some (4, 0x90, 0xBF)
      else if 0xF1 \<le> b \<and> b \<le> 0xF3 then Some (4, 0x80, 0xBF)
      else if b = 0xF4 then Some (4, 0x80, 0x8F)
      else None)"

definition byteAt :: "string \<Rightarrow> nat \<Rightarrow> nat" where
  "byteAt s i = of_char (s ! i)"

definition utf8_DecodeRuneInString :: "string \<Rightarrow> nat option" where
  "utf8_DecodeRuneInString s =
     (if s = [] then None
      else case utf8_first (byteAt s 0) of
        None \<Rightarrow> None
      | Some (sz, lo, hi) \<Rightarrow>
          if length s < sz then None
          else if byteAt s 1 < lo \<or> hi < byteAt s 1 then None
          else if sz \<le> 2 then Some 2
          else if byteAt s 2 < 0x80 \<or> 0xBF < byteAt s 2 then None
          else if sz \<le> 3 then Some 3
          else if byteAt s 3 < 0x80 \<or> 0xBF < byteAt s 3 then None
          else Some 4)"

text \<open>
  The string that is read back from the JSON of a Go string. The encoder looks at no
  more than \<^verbatim>\<open>utf8.UTFMax\<close> bytes at a time.
\<close>

fun jsonString :: "string \<Rightarrow> string" where
  "jsonString [] = []"
| "jsonString (c # cs) =
     (if (of_char c :: nat) < 0x80 then c # jsonString cs
      else case utf8_DecodeRuneInString (take 4 (c # cs)) of
             None \<Rightarrow> [CHR 0xEF, CHR 0xBF, CHR 0xBD] @ jsonString cs
           | Some n \<Rightarrow> c # take (n - 1) cs @ jsonString (drop (n - 1) cs))"

text \<open>
  Marshalling a struct of strings and an integer cannot fail; the document holds the
  integer as it is and the strings coerced.
\<close>

definition json_MarshalIndent :: "spotifyTokenStore \<Rightarrow> os_error + token_doc" where
  "json_MarshalIndent t =
     Inr (TokenJSON \<lparr>AccessToken = jsonString (AccessToken t),
                     RefreshToken = jsonString (RefreshToken t),
                     ExpiresAt = ExpiresAt t,
                     Scope = jsonString (Scope t),
                     TokenType = jsonString (TokenType t)\<rparr>)"

subsection \<open>Paths and client credentials\<close>

text \<open>\<^verbatim>\<open>filepath.Join\<close>; a path is only ever used to name one of the three files.\<close>

definition filepath_Join :: "string \<Rightarrow> string \<Rightarrow> string" where
  "filepath_Join dir name = dir @ ''/'' @ name"

definition spotifyTokenPath :: "world \<Rightarrow> os_error + string" where
  "spotifyTokenPath w =
     (case appDir w of Inl e \<Rightarrow> Inl e
      | Inr dir \<Rightarrow> Inr (filepath_Join dir ''spotify_oauth.json''))"

definition spotifyClientIDPath :: "world \<Rightarrow> os_error + string" where
  "spotifyClientIDPath w =
     (case appDir w of Inl e \<Rightarrow> Inl e
      | Inr dir \<Rightarrow> Inr (filepath_Join dir ''spotify_client_id''))"

definition spotifyClientSecretPath :: "world \<Rightarrow> os_error + string" where
  "spotifyClientSecretPath w =
     (case appDir w of Inl e \<Rightarrow> Inl e
      | Inr dir \<Rightarrow> Inr (filepath_Join dir ''spotify_client_secret''))"

definition GetSpotifyClientID :: "world \<Rightarrow> string \<times> os_error option" where
  "GetSpotifyClientID w =
     (case spotifyClientIDPath w of
        Inl e \<Rightarrow> ([], Some e)
      | Inr path \<Rightarrow>
          (case os_ReadFile (clientIDFile w) of
             Inl e \<Rightarrow> (if e = ErrNotExist then ([], None) else ([], Some e))
           | Inr data \<Rightarrow> (TrimSpace data, None)))"

definition spotifyClientID :: "world \<Rightarrow> string" where
  "spotifyClientID w =
     (case GetSpotifyClientID w of
        (custom, err) \<Rightarrow>
          if err = None \<and> custom \<noteq> [] then custom
          else (case StdEncoding_DecodeString
                       ''NWY1NzNjOTYyMDQ5NGJhZTg3ODkwYzBmMDhhNjAyOTM='' of
                  Inr decoded \<Rightarrow> decoded
                | Inl e \<Rightarrow> []))"

definition GetSpotifyClientSecret :: "world \<Rightarrow> string \<times> os_error option" where
  "GetSpotifyClientSecret w =
     (case spotifyClientSecretPath w of
        Inl e \<Rightarrow> ([], Some e)
      | Inr path \<Rightarrow>
          (case os_ReadFile (clientSecretFile w) of
             Inl e \<Rightarrow> (if e = ErrNotExist then ([], None) else ([], Some e))
           | Inr data \<Rightarrow> (TrimSpace data, None)))"

definition spotifyClientSecret :: "world \<Rightarrow> string" where
  "spotifyClientSecret w =
     (case GetSpotifyClientSecret w of
        (custom, err) \<Rightarrow>
          if err = None \<and> custom \<noteq> [] then custom
          else (case StdEncoding_DecodeString
                       ''MjEyNDc2ZDliMGYzNDcyZWFhNzYyZDkwYjE5YjBiYTg='' of
                  Inr decoded \<Rightarrow> decoded
                | Inl e \<Rightarrow> []))"

subsection \<open>Token exchange and refresh\<close>

definition logCall :: "call \<Rightarrow> world \<Rightarrow> world" where
  "logCall c w = w\<lparr>calls := calls w @ [c]\<rparr>"

definition exchangeCodeForToken ::
  "string \<Rightarrow> string \<Rightarrow> string \<Rightarrow> world \<Rightarrow> (error + spotifyTokenStore) \<times> world" where
  "exchangeCodeForToken code redirectURI verifier w0 =
     (let w = logCall (CallExchange code redirectURI verifier) w0 in
      case tokenURLErr w of
        Some e \<Rightarrow> (Inl (OSError e), w)
      | None \<Rightarrow>
          (let clientID = spotifyClientID w; clientSecret = spotifyClientSecret w in
           if clientID = [] \<or> clientSecret = [] then (Inl MissingClientCredentials, w)
           else
             (case tokenEndpoint w
                     (AuthorizationCode code redirectURI verifier clientID clientSecret) of
                Inl e \<Rightarrow> (Inl (OSError e), w)
              | Inr resp \<Rightarrow>
                  if StatusCode resp \<noteq> 200
                  then (Inl (TokenExchangeFailed (Body resp)), w)
                  else
                    (case BodyJSON resp of
                       Inl e \<Rightarrow> (Inl (OSError e), w)
                     | Inr tr \<Rightarrow>
                         (Inr \<lparr>AccessToken = respAccessToken tr,
                               RefreshToken = respRefreshToken tr,
                               ExpiresAt = expiryAfter w (ExpiresIn tr),
                               Scope = respScope tr,
                               TokenType = respTokenType tr\<rparr>, w)))))"

definition refreshAccessToken ::
  "string \<Rightarrow> world \<Rightarrow> (error + spotifyTokenStore) \<times> world" where
  "refreshAccessToken refreshToken w0 =
     (let w = logCall (CallRefresh refreshToken) w0 in
      case tokenURLErr w of
        Some e \<Rightarrow> (Inl (OSError e), w)
      | None \<Rightarrow>
          (let clientID = spotifyClientID w; clientSecret = spotifyClientSecret w in
           if clientID = [] \<or> clientSecret = [] then (Inl MissingClientCredentials, w)
           else
             (case tokenEndpoint w (RefreshGrant refreshToken clientID clientSecret) of
                Inl e \<Rightarrow> (Inl (OSError e), w)
              | Inr resp \<Rightarrow>
                  if StatusCode resp \<noteq> 200
                  then (Inl (RefreshFailed (Body resp)), w)
                  else
                    (case BodyJSON resp of
                       Inl e \<Rightarrow> (Inl (OSError e), w)
                     | Inr tr \<Rightarrow>
                         (let tr' = (if respRefreshToken tr = []
                                     then tr\<lparr>respRefreshToken := refreshToken\<rparr>
                                     else tr)
                          in (Inr \<lparr>AccessToken = respAccessToken tr',
                                    RefreshToken = respRefreshToken tr',
                                    ExpiresAt = expiryAfter w (ExpiresIn tr'),
                                    Scope = respScope tr',
                                    TokenType = respTokenType tr'\<rparr>, w))))))"

subsection \<open>The session manager\<close>

text \<open>
  \<open>server\<close> holds the port the callback server listens on; \<open>loginWait\<close> is a channel
  of capacity one (\<open>None\<close> is the nil channel, the list is its buffer). The mutex is
  not modelled: every operation below is one critical section.
\<close>

record spotifyAuthManager =
  tokens :: "spotifyTokenStore option"
  profile :: "spotifyUserProfile option"
  verifier :: string
  state :: string
  redirect :: string
  server :: "nat option"
  loginWait :: "error option list option"

definition saveTokens ::
  "spotifyAuthManager \<Rightarrow> spotifyTokenStore \<Rightarrow> world
     \<Rightarrow> error option \<times> spotifyAuthManager \<times> world" where
  "saveTokens m0 toks w =
     (let m = m0\<lparr>tokens := Some toks\<rparr> in
      case spotifyTokenPath w of
        Inl e \<Rightarrow> (Some (OSError e), m, w)
      | Inr path \<Rightarrow>
          (case mkdirAllErr w of
             Some e \<Rightarrow> (Some (OSError e), m, w)
           | None \<Rightarrow>
               (case json_MarshalIndent toks of
                  Inl e \<Rightarrow> (Some (OSError e), m, w)
                | Inr data \<Rightarrow>
                    (case os_WriteFile (tokenFile w) data of
                       (Some e, f) \<Rightarrow> (Some (OSError e), m, w)
                     | (None, f) \<Rightarrow>
                         (None, m, logCall (WroteTokenFile toks) (w\<lparr>tokenFile := f\<rparr>))))))"

definition loadTokensFromDisk ::
  "spotifyAuthManager \<Rightarrow> world \<Rightarrow> error option \<times> spotifyAuthManager" where
  "loadTokensFromDisk m w =
     (case spotifyTokenPath w of
        Inl e \<Rightarrow> (Some (OSError e), m)
      | Inr path \<Rightarrow>
          (case os_ReadFile (tokenFile w) of
             Inl e \<Rightarrow> (Some (OSError e), m)
           | Inr data \<Rightarrow>
               (case json_Unmarshal data of
                  Inl e \<Rightarrow> (Some (OSError e), m)
                | Inr toks \<Rightarrow> (None, m\<lparr>tokens := Some toks\<rparr>))))"

definition emptyManager :: spotifyAuthManager where
  "emptyManager =
     \<lparr>tokens = None, profile = None, verifier = [], state = [], redirect = [],
      server = None, loginWait = None\<rparr>"

definition newSpotifyAuthManager :: "world \<Rightarrow> spotifyAuthManager" where
  "newSpotifyAuthManager w = snd (loadTokensFromDisk emptyManager w)"

definition ensureFreshTokenLocked ::
  "spotifyAuthManager \<Rightarrow> world \<Rightarrow> error option \<times> spotifyAuthManager \<times> world" where
  "ensureFreshTokenLocked m w =
     (case tokens m of
        None \<Rightarrow> (Some NoTokenAvailable, m, w)
      | Some t \<Rightarrow>
          if time_Now_Unix w + 30 < ExpiresAt t then (None, m, w)
          else if RefreshToken t = [] then (Some MissingRefreshToken, m, w)
          else
            (case refreshAccessToken (RefreshToken t) w of
               (Inl e, w') \<Rightarrow> (Some e, m, w')
             | (Inr refreshed, w') \<Rightarrow> saveTokens m refreshed w'))"

definition fetchProfileLocked ::
  "spotifyAuthManager \<Rightarrow> world
     \<Rightarrow> (error + spotifyUserProfile) \<times> spotifyAuthManager \<times> world" where
  "fetchProfileLocked m w =
     (case tokens m of
        None \<Rightarrow> (Inl NotAuthenticated, m, w)
      | Some t0 \<Rightarrow>
          (case ensureFreshTokenLocked m w of
             (Some e, m', w') \<Rightarrow> (Inl e, m', w')
           | (None, m', w') \<Rightarrow>
               (case tokens m' of
                  None \<Rightarrow> (Inl NilPointerDereference, m', w')
                | Some t \<Rightarrow>
                    (case profileEndpoint w' (AccessToken t) of
                       Inl e \<Rightarrow> (Inl (OSError e), m', w')
                     | Inr prof \<Rightarrow> (Inr prof, m', w')))))"

text \<open>
  \<^verbatim>\<open>select { case m.loginWait <- err: default: }\<close>: the value is buffered when the
  channel has room and dropped otherwise; a send on the nil channel is never ready.
\<close>

definition pushLoginError :: "error option \<Rightarrow> spotifyAuthManager \<Rightarrow> spotifyAuthManager" where
  "pushLoginError e m =
     (case loginWait m of
        None \<Rightarrow> m
      | Some buf \<Rightarrow> if length buf < 1 then m\<lparr>loginWait := Some (buf @ [e])\<rparr> else m)"

text \<open>\<^verbatim>\<open>if m.server != nil { _ = m.server.Close() }; m.server = nil\<close>.\<close>

definition closeServer :: "spotifyAuthManager \<Rightarrow> world \<Rightarrow> spotifyAuthManager \<times> world" where
  "closeServer m w =
     (case server m of
        None \<Rightarrow> (m\<lparr>server := None\<rparr>, w)
      | Some port \<Rightarrow> (m\<lparr>server := None\<rparr>, w\<lparr>busyPorts := removeAll port (busyPorts w)\<rparr>))"

text \<open>
  The query of the callback request as \<^verbatim>\<open>r.URL.Query()\<close> parses it, in order;
  \<^verbatim>\<open>Get\<close> is the first value of a key, or the empty string.
\<close>

definition Values_Get :: "(string \<times> string) list \<Rightarrow> string \<Rightarrow> string" where
  "Values_Get query key = (case map_of query key of None \<Rightarrow> [] | Some v \<Rightarrow> v)"

text \<open>What \<^verbatim>\<open>http.Error\<close> writes: the status code and the message with a newline.\<close>

definition http_Error :: "string \<Rightarrow> nat \<Rightarrow> nat \<times> string" where
  "http_Error msg code = (code, msg @ [CHR 0x0A])"

definition loginSuccessPage :: string where
  "loginSuccessPage =
     ''<html><body><p>Spotify login successful. You can close this window.</p></body></html>''"

text \<open>The handler up to its deferred functions.\<close>

definition handleCallbackBody ::
  "(string \<times> string) list \<Rightarrow> spotifyAuthManager \<Rightarrow> world
     \<Rightarrow> (nat \<times> string) \<times> spotifyAuthManager \<times> world" where
  "handleCallbackBody query m w =
     (let st = Values_Get query ''state''; code = Values_Get query ''code'' in
      if st = [] \<or> code = []
      then (http_Error ''Invalid response from Spotify'' 400,
            pushLoginError (Some MissingStateOrCode) m, w)
      else if st \<noteq> state m
      then (http_Error ''State mismatch'' 400, pushLoginError (Some StateMismatch) m, w)
      else
        (case exchangeCodeForToken code (redirect m) (verifier m) w of
           (Inl e, w1) \<Rightarrow>
             (http_Error ''Failed to exchange code'' 500, pushLoginError (Some e) m, w1)
         | (Inr tokenResp, w1) \<Rightarrow>
             (case saveTokens m tokenResp w1 of
                (Some e, m2, w2) \<Rightarrow>
                  (http_Error ''Failed to persist token'' 500,
                   pushLoginError (Some e) m2, w2)
              | (None, m2, w2) \<Rightarrow>
                  (case fetchProfileLocked m2 w2 of
                     (Inl e, m3, w3) \<Rightarrow>
                       (http_Error ''Failed to fetch profile'' 500,
                        pushLoginError (Some e) m3, w3)
                   | (Inr prof, m3, w3) \<Rightarrow>
                       ((200, loginSuccessPage),
                        pushLoginError None (m3\<lparr>profile := Some prof\<rparr>), w3)))))"

definition handleCallback ::
  "(string \<times> string) list \<Rightarrow> spotifyAuthManager \<Rightarrow> world
     \<Rightarrow> (nat \<times> string) \<times> spotifyAuthManager \<times> world" where
  "handleCallback query m w =
     (case handleCallbackBody query m w of
        (reply, m', w') \<Rightarrow>
          (case closeServer m' w' of (m'', w'') \<Rightarrow> (reply, m'', w'')))"

definition zeroStatus :: SpotifyAuthStatus where
  "zeroStatus =
     \<lparr>Authenticated = False, statusDisplayName = [], UserID = [], AvatarURL = [],
      statusExpiresAt = 0, statusScope = []\<rparr>"

definition status ::
  "spotifyAuthManager \<Rightarrow> world
     \<Rightarrow> SpotifyAuthStatus \<times> error option \<times> spotifyAuthManager \<times> world" where
  "status m0 w0 =
     (case (if tokens m0 = None then loadTokensFromDisk m0 w0 else (None, m0)) of
        (loadErr, m1) \<Rightarrow>
          if loadErr \<noteq> None \<and> loadErr \<noteq> Some (OSError ErrNotExist)
          then (zeroStatus, loadErr, m1, w0)
          else
            (case tokens m1 of
               None \<Rightarrow> (zeroStatus\<lparr>Authenticated := False\<rparr>, None, m1, w0)
             | Some t1 \<Rightarrow>
                 (case ensureFreshTokenLocked m1 w0 of
                    (Some e, m2, w2) \<Rightarrow> (zeroStatus, Some e, m2, w2)
                  | (None, m2, w2) \<Rightarrow>
                      (case (if profile m2 = None
                             then (case fetchProfileLocked m2 w2 of
                                     (Inl e, m', w') \<Rightarrow> (Some e, m', w')
                                   | (Inr prof, m', w') \<Rightarrow>
                                       (None, m'\<lparr>profile := Some prof\<rparr>, w'))
                             else (None, m2, w2)) of
                         (Some e, m3, w3) \<Rightarrow> (zeroStatus, Some e, m3, w3)
                       | (None, m3, w3) \<Rightarrow>
                           (case (profile m3, tokens m3) of
                              (Some prof, Some t) \<Rightarrow>
                                (\<lparr>Authenticated = True,
                                  statusDisplayName = DisplayName prof,
                                  UserID = ID prof,
                                  AvatarURL = (case Images prof of [] \<Rightarrow> [] | u # us \<Rightarrow> u),
                                  statusExpiresAt = ExpiresAt t,
                                  statusScope = Scope t\<rparr>, None, m3, w3)
                            | _ \<Rightarrow> (zeroStatus, Some NilPointerDereference, m3, w3))))))"

definition logout ::
  "spotifyAuthManager \<Rightarrow> world \<Rightarrow> error option \<times> spotifyAuthManager \<times> world" where
  "logout m0 w =
     (let m = m0\<lparr>tokens := None, profile := None\<rparr> in
      case spotifyTokenPath w of
        Inl e \<Rightarrow> (None, m, w)
      | Inr tokenPath \<Rightarrow> (None, m, w\<lparr>tokenFile := snd (os_Remove (tokenFile w))\<rparr>))"

subsection \<open>Starting a login\<close>

text \<open>
  \<^verbatim>\<open>rand.Read(buf)\<close> fills the whole buffer from the random stream or fails.
\<close>

definition rand_Read :: "nat \<Rightarrow> world \<Rightarrow> (os_error + string) \<times> world" where
  "rand_Read n w =
     (case randomErr w of
        Some e \<Rightarrow> (Inl e, w)
      | None \<Rightarrow>
          (Inr (map (randomBytes w) [randomDrawn w ..< randomDrawn w + n]),
           w\<lparr>randomDrawn := randomDrawn w + n\<rparr>))"

text \<open>
  The encoding of \<open>n\<close> bytes has at least \<open>n\<close> characters, so the slice
  \<^verbatim>\<open>[:length]\<close> never panics.
\<close>

definition randomString :: "nat \<Rightarrow> world \<Rightarrow> (error + string) \<times> world" where
  "randomString len w =
     (case rand_Read len w of
        (Inl e, w') \<Rightarrow> (Inl (OSError e), w')
      | (Inr buf, w') \<Rightarrow> (Inr (take len (RawURLEncoding_EncodeToString buf)), w'))"

definition generateCodeVerifier :: "world \<Rightarrow> (error + string) \<times> world" where
  "generateCodeVerifier w = randomString 64 w"

definition codeChallenge :: "world \<Rightarrow> string \<Rightarrow> string" where
  "codeChallenge w verif = RawURLEncoding_EncodeToString (sha256_Sum256 w verif)"

definition spotifyAuthorizeURL :: string where
  "spotifyAuthorizeURL = ''https://accounts.spotify.com/authorize''"

definition spotifyScopes :: string where
  "spotifyScopes = ''user-library-read playlist-read-private playlist-read-collaborative''"

text \<open>
  The authorize URL as its endpoint and its query parameters, in the order they are
  set; \<^verbatim>\<open>params.Encode()\<close> (sorting and escaping) is left out.
\<close>

definition buildAuthorizeURL ::
  "world \<Rightarrow> string \<Rightarrow> string \<Rightarrow> string \<Rightarrow> string \<times> (string \<times> string) list" where
  "buildAuthorizeURL w redirectURI st verif =
     (let challenge = codeChallenge w verif in
      (spotifyAuthorizeURL,
       [(''client_id'', spotifyClientID w),
        (''response_type'', ''code''),
        (''redirect_uri'', redirectURI),
        (''state'', st),
        (''scope'', spotifyScopes),
        (''code_challenge'', challenge),
        (''code_challenge_method'', ''S256''),
        (''show_dialog'', ''true'')]))"

text \<open>\<^verbatim>\<open>net.Listen("tcp", "127.0.0.1:<port>")\<close>; port 0 asks for an ephemeral port.\<close>

definition net_Listen :: "nat \<Rightarrow> world \<Rightarrow> (os_error + nat) \<times> world" where
  "net_Listen port w =
     (if port = 0 then
        (case ephemeralPort w of
           None \<Rightarrow> (Inl (ErrOther ''no port available''), w)
         | Some p \<Rightarrow> (Inr p, w\<lparr>busyPorts := p # busyPorts w\<rparr>))
      else if port \<in> set (busyPorts w) then (Inl (ErrOther ''address already in use''), w)
      else (Inr port, w\<lparr>busyPorts := port # busyPorts w\<rparr>))"

definition ln_Close :: "nat \<Rightarrow> world \<Rightarrow> world" where
  "ln_Close port w = w\<lparr>busyPorts := removeAll port (busyPorts w)\<rparr>"

text \<open>\<^verbatim>\<open>%d\<close> of a port number.\<close>

fun decimal :: "nat \<Rightarrow> string" where
  "decimal n =
     (if n < 10 then [char_of (48 + n)]
      else decimal (n div 10) @ [char_of (48 + n mod 10)])"

declare decimal.simps [simp del]

text \<open>
  \<^verbatim>\<open>startLogin\<close> up to the point where it starts the two goroutines (the server loop
  and the watcher that closes the server when the context ends); these run after the
  function has returned and are not part of this model.
\<close>

definition startLogin ::
  "spotifyAuthManager \<Rightarrow> world
     \<Rightarrow> (error + string \<times> (string \<times> string) list) \<times> spotifyAuthManager \<times> world" where
  "startLogin m0 w0 =
     (case closeServer m0 w0 of
        (m1, w1) \<Rightarrow>
          (case (case net_Listen 3000 w1 of
                   (Inl e, w') \<Rightarrow> net_Listen 0 w'
                 | (Inr port, w') \<Rightarrow> (Inr port, w')) of
             (Inl e, w2) \<Rightarrow> (Inl (ListenerFailed e), m1, w2)
           | (Inr port, w2) \<Rightarrow>
               (let m2 = m1\<lparr>redirect := ''http://127.0.0.1:'' @ decimal port @ ''/callback''\<rparr>
                in case generateCodeVerifier w2 of
                     (Inl e, w3) \<Rightarrow> (Inl e, m2, ln_Close port w3)
                   | (Inr v, w3) \<Rightarrow>
                       (let m3 = m2\<lparr>verifier := v\<rparr> in
                        case randomString 32 w3 of
                          (Inl e, w4) \<Rightarrow> (Inl e, m3\<lparr>state := []\<rparr>, ln_Close port w4)
                        | (Inr st, w4) \<Rightarrow>
                            (let m4 = m3\<lparr>state := st\<rparr>;
                                 authURL = buildAuthorizeURL w4 (redirect m4) (state m4) v
                             in (Inr authURL,
                                 m4\<lparr>server := Some port, loginWait := Some []\<rparr>, w4))))))"

subsection \<open>The paginated fetch coordinator\<close>

text \<open>
  \<open>tracks = None\<close> is Go's nil slice. The element type of a page
  (\<^verbatim>\<open>AlbumTrackMetadata\<close>, declared in another file) is a type parameter.
\<close>

record 'a trackPageResult =
  offset :: int
  tracks :: "'a list option"
  err :: "error option"

text \<open>
  \<^verbatim>\<open>convertSavedTrackItems\<close> skips the items whose track is nil; its result is made
  with \<^verbatim>\<open>make\<close> and is never the nil slice. \<^verbatim>\<open>convertTrackToAlbumTrack\<close> is a
  parameter.
\<close>

definition convertSavedTrackItems :: "('t \<Rightarrow> 'a) \<Rightarrow> 't option list \<Rightarrow> 'a list option" where
  "convertSavedTrackItems convertTrackToAlbumTrack items =
     Some (map convertTrackToAlbumTrack
             (concat (map (\<lambda>item. case item of None \<Rightarrow> [] | Some track \<Rightarrow> [track]) items)))"

text \<open>
  The closure \<^verbatim>\<open>pageFetcher\<close> of \<^verbatim>\<open>fetchUserSavedTracks\<close> and of
  \<^verbatim>\<open>fetchPlaylistWithTracks\<close>; \<open>getJSON\<close> stands for the request of the page at an
  offset and the decoding of its items.
\<close>

definition pageFetcher ::
  "(int \<Rightarrow> error + 't option list) \<Rightarrow> ('t \<Rightarrow> 'a) \<Rightarrow> int
     \<Rightarrow> 'a list option \<times> error option" where
  "pageFetcher getJSON convertTrackToAlbumTrack offs =
     (case getJSON offs of
        Inl e \<Rightarrow> (None, Some (FetchPageFailed offs e))
      | Inr items \<Rightarrow> (convertSavedTrackItems convertTrackToAlbumTrack items, None))"

definition spotifyWorkerCount :: nat where
  "spotifyWorkerCount = 8"

text \<open>
  A worker is blocked receiving from \<^verbatim>\<open>jobs\<close>, blocked sending a result to
  \<^verbatim>\<open>results\<close>, or has left its loop (and called \<^verbatim>\<open>wg.Done\<close>).
\<close>

datatype 'a worker = Waiting | Sending "'a trackPageResult" | Exited

text \<open>
  The state of one call of \<^verbatim>\<open>runTrackPageWorkers\<close>: the context's error, the offsets
  the dispatcher has still to send, whether \<^verbatim>\<open>jobs\<close> and \<^verbatim>\<open>results\<close> are closed,
  the workers spawned, the collector's variables \<open>collected\<close> and \<open>firstErr\<close>, and the
  values returned once the function has returned. \<open>arrived\<close> records the results in
  the order the collector received them; the program does not read it.
\<close>

record 'a pool =
  ctxErr :: "error option"
  jobs :: "int list"
  jobsClosed :: bool
  workers :: "'a worker list"
  resultsClosed :: bool
  arrived :: "'a trackPageResult list"
  collected :: "'a trackPageResult list"
  firstErr :: "error option"
  returned :: "('a trackPageResult list option \<times> error option) option"

text \<open>The body of a worker's loop for one offset: the result it will send.\<close>

definition workerJob ::
  "error option \<Rightarrow> (int \<Rightarrow> 'a list option \<times> error option) \<Rightarrow> int \<Rightarrow> 'a trackPageResult" where
  "workerJob ctx fetch offs =
     (case ctx of
        Some e \<Rightarrow> \<lparr>offset = offs, tracks = None, err = Some e\<rparr>
      | None \<Rightarrow>
          (case fetch offs of
             (trks, Some e) \<Rightarrow> \<lparr>offset = offs, tracks = None, err = Some e\<rparr>
           | (trks, None) \<Rightarrow> \<lparr>offset = offs, tracks = trks, err = None\<rparr>))"

text \<open>The body of the collector's loop \<^verbatim>\<open>for res := range results\<close>.\<close>

definition collect :: "'a trackPageResult \<Rightarrow> 'a pool \<Rightarrow> 'a pool" where
  "collect res s =
     s\<lparr>firstErr :=
         (case err res of
            Some e \<Rightarrow>
              (if firstErr s = None then Some (FailedFetchingTracks (offset res) e)
               else firstErr s)
          | None \<Rightarrow> firstErr s),
       collected := (if tracks res \<noteq> None then collected s @ [res] else collected s),
       arrived := arrived s @ [res]\<rparr>"

text \<open>
  What the function returns after the loop. \<^verbatim>\<open>sort.Slice\<close> is not stable; it is
  modelled by a sort on the offset, which gives the same list whenever results with
  equal offsets are equal.
\<close>

definition finish :: "'a pool \<Rightarrow> 'a trackPageResult list option \<times> error option" where
  "finish s =
     (let fe = (if firstErr s = None \<and> ctxErr s \<noteq> None then ctxErr s else firstErr s) in
      case fe of
        Some e \<Rightarrow> (None, Some e)
      | None \<Rightarrow> (Some (sort_key offset (collected s)), None))"

text \<open>
  The steps of the goroutines. \<open>Take i\<close>: the dispatcher sends the next offset and
  worker \<open>i\<close> receives it, checks the context and fetches. \<open>CloseJobs\<close>: the dispatcher
  has sent every offset and closes \<^verbatim>\<open>jobs\<close>. \<open>Deliver i\<close>: worker \<open>i\<close> sends its
  result and the collector receives it. \<open>Exit i\<close>: worker \<open>i\<close> finds \<^verbatim>\<open>jobs\<close> closed
  and leaves. \<open>CloseResults\<close>: the dispatcher's \<^verbatim>\<open>wg.Wait()\<close> returns and it closes
  \<^verbatim>\<open>results\<close>. \<open>CtxDone e\<close>: the context ends with error \<open>e\<close>. \<open>Return\<close>: the
  collector's loop has ended and the function returns. A step that is not enabled
  leaves the state as it is.
\<close>

datatype action =
  Take nat | CloseJobs | Deliver nat | Exit nat | CloseResults | CtxDone error | Return

fun step ::
  "(int \<Rightarrow> 'a list option \<times> error option) \<Rightarrow> action \<Rightarrow> 'a pool \<Rightarrow> 'a pool" where
  "step fetch (Take i) s =
     (case jobs s of
        [] \<Rightarrow> s
      | offs # rest \<Rightarrow>
          if i < length (workers s) \<and> workers s ! i = Waiting
          then s\<lparr>jobs := rest,
                 workers := (workers s)[i := Sending (workerJob (ctxErr s) fetch offs)]\<rparr>
          else s)"
| "step fetch CloseJobs s = (if jobs s = [] then s\<lparr>jobsClosed := True\<rparr> else s)"
| "step fetch (Deliver i) s =
     (if i < length (workers s) then
        (case workers s ! i of
           Sending res \<Rightarrow> collect res (s\<lparr>workers := (workers s)[i := Waiting]\<rparr>)
         | Waiting \<Rightarrow> s
         | Exited \<Rightarrow> s)
      else s)"
| "step fetch (Exit i) s =
     (if jobsClosed s \<and> i < length (workers s) \<and> workers s ! i = Waiting
      then s\<lparr>workers := (workers s)[i := Exited]\<rparr>
      else s)"
| "step fetch CloseResults s =
     (if jobsClosed s \<and> list_all (\<lambda>wk. wk = Exited) (workers s)
      then s\<lparr>resultsClosed := True\<rparr>
      else s)"
| "step fetch (CtxDone e) s = (if ctxErr s = None then s\<lparr>ctxErr := Some e\<rparr> else s)"
| "step fetch Return s =
     (if resultsClosed s \<and> returned s = None then s\<lparr>returned := Some (finish s)\<rparr> else s)"

fun exec ::
  "(int \<Rightarrow> 'a list option \<times> error option) \<Rightarrow> action list \<Rightarrow> 'a pool \<Rightarrow> 'a pool" where
  "exec fetch [] s = s"
| "exec fetch (a # as) s = exec fetch as (step fetch a s)"

text \<open>
  The state after the workers and the dispatcher have been started:
  \<^verbatim>\<open>workerCount\<close> is \<^verbatim>\<open>spotifyWorkerCount\<close>, lowered to the number of offsets.
\<close>

definition started :: "error option \<Rightarrow> int list \<Rightarrow> 'a pool" where
  "started ctx offsets =
     (let workerCount =
            (if spotifyWorkerCount > length offsets then length offsets
             else spotifyWorkerCount)
      in \<lparr>ctxErr = ctx, jobs = offsets, jobsClosed = False,
          workers = replicate workerCount Waiting, resultsClosed = False,
          arrived = [], collected = [], firstErr = None, returned = None\<rparr>)"

text \<open>
  \<^verbatim>\<open>runTrackPageWorkers\<close> under a schedule of the goroutines' steps. With no offsets
  it returns at once, before any channel or worker exists. The function has returned
  when \<open>returned\<close> is set; \<open>ctx\<close> is the context's error at the time of the call.
\<close>

definition runTrackPageWorkers ::
  "action list \<Rightarrow> error option \<Rightarrow> int list \<Rightarrow> (int \<Rightarrow> 'a list option \<times> error option)
     \<Rightarrow> 'a pool" where
  "runTrackPageWorkers schedule ctx offsets fetch =
     (if length offsets = 0
      then \<lparr>ctxErr = ctx, jobs = [], jobsClosed = False, workers = [],
            resultsClosed = False, arrived = [], collected = [], firstErr = None,
            returned = Some (None, None)\<rparr>
      else exec fetch schedule (started ctx offsets))"

section \<open>Notions used in the statements\<close>

subsection \<open>Calls and writes a world has logged\<close>

text \<open>The number of entries of \<^verbatim>\<open>refreshAccessToken\<close> a world has logged.\<close>

fun isRefreshCall :: "call \<Rightarrow> bool" where
  "isRefreshCall (CallRefresh rt) = True"
| "isRefreshCall c = False"

definition refreshCalls :: "world \<Rightarrow> nat" where
  "refreshCalls w = length (filter isRefreshCall (calls w))"





subsection \<open>Files and listeners\<close>

text \<open>The files \<^verbatim>\<open>os.Remove\<close> leaves absent.\<close>

definition removable :: "'a fnode \<Rightarrow> bool" where
  "removable f = (case f of Absent \<Rightarrow> True | Present d \<Rightarrow> True | ReadOnly d \<Rightarrow> False
                  | NoAccess \<Rightarrow> False)"

text \<open>The listener \<^verbatim>\<open>startLogin\<close> opens: the fixed port, or an ephemeral one.\<close>

definition openListener :: "world \<Rightarrow> (os_error + nat) \<times> world" where
  "openListener w =
     (case net_Listen 3000 w of
        (Inl e, w') \<Rightarrow> net_Listen 0 w'
      | (Inr port, w') \<Rightarrow> (Inr port, w'))"

subsection \<open>Runs of the coordinator\<close>

text \<open>
  The reference the coordinator is compared with: the pages fetched one after the
  other, in the order of the offsets.
\<close>

definition sequentialFetch ::
  "(int \<Rightarrow> 'a list option \<times> error option) \<Rightarrow> int list \<Rightarrow> 'a trackPageResult list" where
  "sequentialFetch fetch offsets =
     map (\<lambda>offs. \<lparr>offset = offs, tracks = fst (fetch offs), err = None\<rparr>) offsets"

text \<open>
  A schedule that serves the remaining work from any state: it lets every worker
  deliver, gives each remaining offset to worker 0, closes \<^verbatim>\<open>jobs\<close>, lets every
  worker leave, closes \<^verbatim>\<open>results\<close> and returns.
\<close>

definition drain :: "'a pool \<Rightarrow> action list" where
  "drain s =
     map Deliver [0 ..< length (workers s)]
     @ concat (map (\<lambda>offs. [Take 0, Deliver 0]) (jobs s))
     @ [CloseJobs]
     @ map Exit [0 ..< length (workers s)]
     @ [CloseResults, Return]"

text \<open>The elements of a slice; the nil slice has none.\<close>

fun elems :: "'a list option \<Rightarrow> 'a list" where
  "elems None = []"
| "elems (Some xs) = xs"

text \<open>The page of an offset whose fetch has succeeded.\<close>

definition page :: "(int \<Rightarrow> 'a list option \<times> error option) \<Rightarrow> int \<Rightarrow> 'a trackPageResult" where
  "page fetch offs = \<lparr>offset = offs, tracks = fst (fetch offs), err = None\<rparr>"

text \<open>
  The results the workers hold, and the invariant of a run: every offset is still to
  be sent, held by a worker or arrived, exactly once; every result was computed by a
  worker from its offset (\<open>fromJob\<close>); the collector's variables are functions of the
  results arrived so far; the channels are closed in order; and the number of workers
  never changes. A state is \<open>quiet\<close> when no worker holds a result.
\<close>

fun sendingOf :: "'a worker \<Rightarrow> 'a trackPageResult list" where
  "sendingOf (Sending res) = [res]"
| "sendingOf Waiting = []"
| "sendingOf Exited = []"

definition inflight :: "'a worker list \<Rightarrow> 'a trackPageResult list" where
  "inflight ws = concat (map sendingOf ws)"

definition fromJob ::
  "(int \<Rightarrow> 'a list option \<times> error option) \<Rightarrow> error option \<Rightarrow> 'a trackPageResult \<Rightarrow> bool" where
  "fromJob fetch ctx res =
     (res = workerJob None fetch (offset res)
      \<or> (\<exists>e. ctx = Some e \<and> res = \<lparr>offset = offset res, tracks = None, err = Some e\<rparr>))"

definition firstFailure :: "'a trackPageResult list \<Rightarrow> error option" where
  "firstFailure rs =
     (case find (\<lambda>r. err r \<noteq> None) rs of
        None \<Rightarrow> None
      | Some r \<Rightarrow> (case err r of None \<Rightarrow> None
                   | Some e \<Rightarrow> Some (FailedFetchingTracks (offset r) e)))"

definition poolInv ::
  "(int \<Rightarrow> 'a list option \<times> error option) \<Rightarrow> int list \<Rightarrow> 'a pool \<Rightarrow> bool" where
  "poolInv fetch offsets s =
     (mset (jobs s) + mset (map offset (inflight (workers s))) + mset (map offset (arrived s))
        = mset offsets
      \<and> list_all (fromJob fetch (ctxErr s)) (inflight (workers s))
      \<and> list_all (fromJob fetch (ctxErr s)) (arrived s)
      \<and> collected s = filter (\<lambda>r. tracks r \<noteq> None) (arrived s)
      \<and> firstErr s = firstFailure (arrived s)
      \<and> (jobsClosed s \<longrightarrow> jobs s = [])
      \<and> (Exited \<in> set (workers s) \<longrightarrow> jobsClosed s)
      \<and> (resultsClosed s \<longrightarrow> jobsClosed s \<and> list_all (\<lambda>wk. wk = Exited) (workers s))
      \<and> (case returned s of
            None \<Rightarrow> True
          | Some out \<Rightarrow>
              resultsClosed s
              \<and> (\<exists>c. out = finish (s\<lparr>ctxErr := c\<rparr>) \<and> (c = None \<or> c = ctxErr s)))
      \<and> length (workers s) = min spotifyWorkerCount (length offsets))"

fun isSending :: "'a worker \<Rightarrow> bool" where
  "isSending (Sending res) = True"
| "isSending Waiting = False"
| "isSending Exited = False"

definition quiet :: "'a pool \<Rightarrow> bool" where
  "quiet s = list_all (\<lambda>wk. \<not> isSending wk) (workers s)"

section \<open>Example worlds\<close>

text \<open>
  A world with nothing stored and no network, and variants of it; the closed
  instances of the theorems below are stated on them.
\<close>

definition offline :: os_error where
  "offline = ErrOther ''no route to host''"

definition exampleWorld :: world where
  "exampleWorld =
     \<lparr>clock = 1700000000000000000,
      appDir = Inr ''/home/user/.spotidownloader'',
      mkdirAllErr = None,
      tokenFile = Absent,
      clientIDFile = Absent,
      clientSecretFile = Absent,
      tokenURLErr = None,
      tokenEndpoint = (\<lambda>req. Inl offline),
      profileEndpoint = (\<lambda>tok. Inl offline),
      randomErr = None,
      randomBytes = (\<lambda>i. char_of i),
      randomDrawn = 0,
      busyPorts = [],
      ephemeralPort = Some 49152,
      sha256_Sum256 = (\<lambda>s. replicate 32 (CHR 0x00)),
      calls = []\<rparr>"

definition replyWithoutRefreshToken :: tokenResp where
  "replyWithoutRefreshToken =
     \<lparr>respAccessToken = ''access-2'', ExpiresIn = 3600, respRefreshToken = [],
      respScope = ''user-library-read'', respTokenType = ''Bearer''\<rparr>"

definition replyWithRefreshToken :: tokenResp where
  "replyWithRefreshToken =
     \<lparr>respAccessToken = ''access-2'', ExpiresIn = 3600, respRefreshToken = ''refresh-2'',
      respScope = ''user-library-read'', respTokenType = ''Bearer''\<rparr>"

definition ok200 :: "tokenResp \<Rightarrow> http_response" where
  "ok200 tr = \<lparr>StatusCode = 200, Body = [], BodyJSON = Inr tr\<rparr>"

definition providerWorld :: "tokenResp \<Rightarrow> world" where
  "providerWorld tr = exampleWorld\<lparr>tokenEndpoint := (\<lambda>req. Inr (ok200 tr))\<rparr>"

definition managerWith :: "spotifyTokenStore \<Rightarrow> spotifyAuthManager" where
  "managerWith t = emptyManager\<lparr>tokens := Some t\<rparr>"

text \<open>The clock of \<open>exampleWorld\<close> reads 1700000000 seconds.\<close>

definition freshToken :: spotifyTokenStore where
  "freshToken =
     \<lparr>AccessToken = ''access-1'', RefreshToken = ''refresh-1'', ExpiresAt = 1700003600,
      Scope = ''user-library-read'', TokenType = ''Bearer''\<rparr>"



definition pendingLogin :: spotifyAuthManager where
  "pendingLogin =
     \<lparr>tokens = None, profile = None, verifier = ''verifier-1'', state = ''issued-state'',
      redirect = ''http://127.0.0.1:3000/callback'', server = Some 3000,
      loginWait = Some []\<rparr>"

text \<open>The world in which the callback server of \<open>pendingLogin\<close> listens.\<close>

definition listeningWorld :: world where
  "listeningWorld = exampleWorld\<lparr>busyPorts := [3000]\<rparr>"



definition someProfile :: spotifyUserProfile where
  "someProfile =
     \<lparr>ID = ''user-1'', DisplayName = ''User One'', Email = ''user@example.org'',
      Images = [''https://example.org/avatar.png'']\<rparr>"

definition homelessWorld :: world where
  "homelessWorld = exampleWorld\<lparr>appDir := Inl (ErrOther ''$HOME is not defined'')\<rparr>"

definition readOnlyWorld :: world where
  "readOnlyWorld =
     exampleWorld\<lparr>tokenFile := ReadOnly (TokenJSON freshToken),
                  profileEndpoint := (\<lambda>tok. Inr someProfile)\<rparr>"

definition storedWorld :: world where
  "storedWorld = exampleWorld\<lparr>tokenFile := Present (TokenJSON freshToken)\<rparr>"

definition drawnWorld :: world where
  "drawnWorld = exampleWorld\<lparr>randomDrawn := 128\<rparr>"

definition alteredWorld :: world where
  "alteredWorld =
     exampleWorld\<lparr>randomBytes := (\<lambda>i. if 88 \<le> i then CHR 0xFF else char_of i)\<rparr>"

text \<open>Fetch functions and schedules for the coordinator.\<close>

definition pageOf :: "int \<Rightarrow> string list option \<times> error option" where
  "pageOf offs = (Some [''track at '' @ decimal (nat offs)], None)"

definition failingFetch :: "int \<Rightarrow> string list option \<times> error option" where
  "failingFetch offs = (None, Some (FetchPageFailed offs (OSError offline)))"

definition emptyPages :: "int \<Rightarrow> string list option \<times> error option" where
  "emptyPages offs = (None, None)"

definition twoWorkerRun :: "action list" where
  "twoWorkerRun =
     [Take 0, Take 1, Deliver 1, Deliver 0, CloseJobs, Exit 0, Exit 1, CloseResults, Return]"

definition oneWorkerRun :: "action list" where
  "oneWorkerRun = [Take 0, Deliver 0, CloseJobs, Exit 0, CloseResults, Return]"

definition cancelledRun :: "action list" where
  "cancelledRun =
     [Take 0, Deliver 0, CtxDone ContextDone, CloseJobs, Exit 0, CloseResults, Return]"

section \<open>Client credentials\<close>

lemma decode_default_client_id:
  "StdEncoding_DecodeString ''NWY1NzNjOTYyMDQ5NGJhZTg3ODkwYzBmMDhhNjAyOTM=''
     = Inr ''5f573c9620494bae87890c0f08a60293''"
  by (simp add: StdEncoding_DecodeString_def decodeStd_def char_of_def bit_Suc_0_iff)

lemma decode_default_client_secret:
  "StdEncoding_DecodeString ''MjEyNDc2ZDliMGYzNDcyZWFhNzYyZDkwYjE5YjBiYTg=''
     = Inr ''212476d9b0f3472eaa762d90b19b0ba8''"
  by (simp add: StdEncoding_DecodeString_def decodeStd_def char_of_def bit_Suc_0_iff)

lemma spotifyClientID_nonempty: "spotifyClientID w \<noteq> []"
  by (simp add: spotifyClientID_def decode_default_client_id split: prod.splits)

lemma spotifyClientSecret_nonempty: "spotifyClientSecret w \<noteq> []"
  by (simp add: spotifyClientSecret_def decode_default_client_secret split: prod.splits)

lemma spotifyClientID_logCall [simp]: "spotifyClientID (logCall c w) = spotifyClientID w"
  by (simp add: spotifyClientID_def GetSpotifyClientID_def spotifyClientIDPath_def logCall_def
      cong: sum.case_cong)

lemma spotifyClientSecret_logCall [simp]:
  "spotifyClientSecret (logCall c w) = spotifyClientSecret w"
  by (simp add: spotifyClientSecret_def GetSpotifyClientSecret_def spotifyClientSecretPath_def
      logCall_def cong: sum.case_cong)

lemma logCall_tokenURLErr [simp]: "tokenURLErr (logCall c w) = tokenURLErr w"
  by (simp add: logCall_def)

lemma logCall_tokenEndpoint [simp]: "tokenEndpoint (logCall c w) = tokenEndpoint w"
  by (simp add: logCall_def)

lemma logCall_calls [simp]: "calls (logCall c w) = calls w @ [c]"
  by (simp add: logCall_def)

text \<open>
  Claim C10. \<^verbatim>\<open>spotifyClientID()\<close> and \<^verbatim>\<open>spotifyClientSecret()\<close> return a non-empty
  string in every world: a non-empty override is returned as it is, and otherwise the
  built-in base64 constant decodes (to a 32-character string). Hence neither
  \<^verbatim>\<open>exchangeCodeForToken\<close> nor \<^verbatim>\<open>refreshAccessToken\<close> ever returns the
  missing-client-credentials error.
\<close>

theorem client_credentials_never_missing:
  "spotifyClientID w \<noteq> [] \<and> spotifyClientSecret w \<noteq> []
   \<and> fst (exchangeCodeForToken code redirectURI verif w) \<noteq> Inl MissingClientCredentials
   \<and> fst (refreshAccessToken refreshToken w) \<noteq> Inl MissingClientCredentials"
  by (simp add: spotifyClientID_nonempty spotifyClientSecret_nonempty
      exchangeCodeForToken_def refreshAccessToken_def Let_def
      split: option.splits sum.splits)

section \<open>Refreshing the access token\<close>

text \<open>
  Claim C8. When the token endpoint answers a refresh request with status 200 and a
  body that decodes, \<^verbatim>\<open>refreshAccessToken\<close> returns a token record; its refresh
  token is the prior one when the response's \<^verbatim>\<open>refresh_token\<close> is empty, and the
  response's one otherwise.
\<close>

theorem refresh_keeps_or_replaces_refresh_token:
  assumes "tokenURLErr w = None"
    and "tokenEndpoint w (RefreshGrant prior (spotifyClientID w) (spotifyClientSecret w))
           = Inr resp"
    and "StatusCode resp = 200"
    and "BodyJSON resp = Inr tr"
  shows "\<exists>t. fst (refreshAccessToken prior w) = Inr t
           \<and> RefreshToken t = (if respRefreshToken tr = [] then prior else respRefreshToken tr)"
  using assms
  by (simp add: refreshAccessToken_def Let_def spotifyClientID_nonempty
      spotifyClientSecret_nonempty)

theorem refresh_keeps_or_replaces_refresh_token_witness:
  "(\<exists>t. fst (refreshAccessToken ''refresh-1'' (providerWorld replyWithoutRefreshToken)) = Inr t
        \<and> RefreshToken t = ''refresh-1'')
   \<and> (\<exists>t. fst (refreshAccessToken ''refresh-1'' (providerWorld replyWithRefreshToken)) = Inr t
        \<and> RefreshToken t = ''refresh-2'')"
  using refresh_keeps_or_replaces_refresh_token
          [of "providerWorld replyWithoutRefreshToken" "''refresh-1''"
              "ok200 replyWithoutRefreshToken" replyWithoutRefreshToken]
        refresh_keeps_or_replaces_refresh_token
          [of "providerWorld replyWithRefreshToken" "''refresh-1''"
              "ok200 replyWithRefreshToken" replyWithRefreshToken]
  by (simp add: providerWorld_def exampleWorld_def ok200_def replyWithoutRefreshToken_def
      replyWithRefreshToken_def)

section \<open>The freshness check\<close>

lemma refreshAccessToken_calls:
  "calls (snd (refreshAccessToken rt w)) = calls w @ [CallRefresh rt]"
  by (simp add: refreshAccessToken_def Let_def split: option.splits sum.splits)

lemma saveTokens_calls:
  "calls (snd (snd (saveTokens m t w))) = calls w
   \<or> calls (snd (snd (saveTokens m t w))) = calls w @ [WroteTokenFile t]"
  by (simp add: saveTokens_def Let_def json_MarshalIndent_def
      split: option.splits sum.splits prod.splits)

lemma saveTokens_refreshCalls:
  "refreshCalls (snd (snd (saveTokens m t w))) = refreshCalls w"
  using saveTokens_calls [of m t w] by (auto simp: refreshCalls_def)




text \<open>
  At exactly 30 seconds before expiry the check refreshes: the guard is
  \<^verbatim>\<open>now+30 < ExpiresAt\<close>, while the comment above it reads "Refresh if expiring in
  <30s".
\<close>

lemma freshness_check_at_thirty_seconds:
  assumes "tokens m = Some t" and "ExpiresAt t - time_Now_Unix w = 30"
    and "RefreshToken t \<noteq> []"
  shows "refreshCalls (snd (snd (ensureFreshTokenLocked m w))) = refreshCalls w + 1"
proof (cases "refreshAccessToken (RefreshToken t) w")
  case (Pair r w')
  have "refreshCalls w' = refreshCalls w + 1"
    using Pair refreshAccessToken_calls [of "RefreshToken t" w] by (simp add: refreshCalls_def)
  then show ?thesis
    using assms Pair
    by (cases r) (simp_all add: ensureFreshTokenLocked_def saveTokens_refreshCalls)
qed

section \<open>The callback handler\<close>

lemma closeServer_calls: "calls (snd (closeServer m w)) = calls w"
  by (simp add: closeServer_def split: option.splits)

lemma closeServer_tokens: "tokens (fst (closeServer m w)) = tokens m"
  by (simp add: closeServer_def split: option.splits)

lemma closeServer_loginWait: "loginWait (fst (closeServer m w)) = loginWait m"
  by (simp add: closeServer_def split: option.splits)

lemma closeServer_server: "server (fst (closeServer m w)) = None"
  by (simp add: closeServer_def split: option.splits)

lemma pushLoginError_tokens: "tokens (pushLoginError e m) = tokens m"
  by (simp add: pushLoginError_def split: option.splits)

text \<open>
  Claim C2, as amended. A callback whose \<open>state\<close> parameter differs from the issued
  state never reaches the token exchange: nothing is logged (in particular no entry of
  \<^verbatim>\<open>exchangeCodeForToken\<close>), the stored tokens are untouched, the server is shut down
  (the manager holds no server any more and the port it listened on is free; nothing
  else of the world changes) and the reply has status 400. The error reported is the
  state mismatch when both \<open>state\<close> and \<open>code\<close> are non-empty, and the
  missing-state-or-code error when either is empty.
\<close>

theorem callback_with_other_state_is_rejected:
  assumes "Values_Get query ''state'' \<noteq> state m"
  shows "calls (snd (snd (handleCallback query m w))) = calls w
     \<and> tokens (fst (snd (handleCallback query m w))) = tokens m
     \<and> server (fst (snd (handleCallback query m w))) = None
     \<and> snd (snd (handleCallback query m w))
          = (case server m of
               None \<Rightarrow> w
             | Some port \<Rightarrow> w\<lparr>busyPorts := removeAll port (busyPorts w)\<rparr>)
     \<and> (case server m of
           None \<Rightarrow> True
         | Some port \<Rightarrow> port \<notin> set (busyPorts (snd (snd (handleCallback query m w)))))
     \<and> (if Values_Get query ''state'' = [] \<or> Values_Get query ''code'' = []
         then fst (handleCallback query m w) = http_Error ''Invalid response from Spotify'' 400
            \<and> loginWait (fst (snd (handleCallback query m w)))
                = loginWait (pushLoginError (Some MissingStateOrCode) m)
         else fst (handleCallback query m w) = http_Error ''State mismatch'' 400
            \<and> loginWait (fst (snd (handleCallback query m w)))
                = loginWait (pushLoginError (Some StateMismatch) m))"
proof -
  have srv: "server (pushLoginError e m) = server m" for e
    by (simp add: pushLoginError_def split: option.splits)
  have world: "snd (snd (handleCallback query m w))
          = (case server m of
               None \<Rightarrow> w
             | Some port \<Rightarrow> w\<lparr>busyPorts := removeAll port (busyPorts w)\<rparr>)"
    using assms
    by (simp add: handleCallback_def handleCallbackBody_def Let_def split_beta
        closeServer_def srv split: option.splits)
  have free: "(case server m of
           None \<Rightarrow> True
         | Some port \<Rightarrow> port \<notin> set (busyPorts (snd (snd (handleCallback query m w)))))"
    unfolding world by (simp split: option.splits)
  have rest: "calls (snd (snd (handleCallback query m w))) = calls w
     \<and> tokens (fst (snd (handleCallback query m w))) = tokens m
     \<and> server (fst (snd (handleCallback query m w))) = None
     \<and> (if Values_Get query ''state'' = [] \<or> Values_Get query ''code'' = []
         then fst (handleCallback query m w) = http_Error ''Invalid response from Spotify'' 400
            \<and> loginWait (fst (snd (handleCallback query m w)))
                = loginWait (pushLoginError (Some MissingStateOrCode) m)
         else fst (handleCallback query m w) = http_Error ''State mismatch'' 400
            \<and> loginWait (fst (snd (handleCallback query m w)))
                = loginWait (pushLoginError (Some StateMismatch) m))"
    using assms
    by (simp add: handleCallback_def handleCallbackBody_def Let_def split_beta
        closeServer_calls closeServer_tokens closeServer_loginWait closeServer_server
        pushLoginError_tokens)
  show ?thesis using world free rest by simp
qed

text \<open>
  The claim as the specification states it fails on a request that carries a foreign
  state and no code: it is rejected as malformed, not as a state mismatch.
\<close>

theorem callback_with_other_state_counterexample:
  "Values_Get [(''state'', ''forged-state'')] ''state'' \<noteq> state pendingLogin
   \<and> fst (handleCallback [(''state'', ''forged-state'')] pendingLogin exampleWorld)
       = http_Error ''Invalid response from Spotify'' 400
   \<and> loginWait (fst (snd (handleCallback [(''state'', ''forged-state'')] pendingLogin
         exampleWorld))) = Some [Some MissingStateOrCode]"
  by (simp add: handleCallback_def handleCallbackBody_def Let_def Values_Get_def
      pendingLogin_def pushLoginError_def closeServer_def)

theorem callback_with_other_state_is_rejected_witness:
  "fst (handleCallback [(''state'', ''forged-state''), (''code'', ''c0de'')] pendingLogin
          listeningWorld) = http_Error ''State mismatch'' 400
   \<and> loginWait (fst (snd (handleCallback [(''state'', ''forged-state''), (''code'', ''c0de'')]
          pendingLogin listeningWorld))) = Some [Some StateMismatch]
   \<and> calls (snd (snd (handleCallback [(''state'', ''forged-state''), (''code'', ''c0de'')]
          pendingLogin listeningWorld))) = []
   \<and> busyPorts listeningWorld = [3000]
   \<and> busyPorts (snd (snd (handleCallback [(''state'', ''forged-state''), (''code'', ''c0de'')]
          pendingLogin listeningWorld))) = []"
  using callback_with_other_state_is_rejected
          [of "[(''state'', ''forged-state''), (''code'', ''c0de'')]" pendingLogin listeningWorld]
  by (simp add: Values_Get_def pendingLogin_def pushLoginError_def exampleWorld_def
      listeningWorld_def)

section \<open>What is written to the token file\<close>




















subsection \<open>The token file after a write\<close>

text \<open>
  The JSON encoder leaves an empty string empty and a string of ASCII as it is, and
  replaces a byte that starts no valid encoding by U+FFFD.
\<close>

lemma jsonString_empty: "jsonString s = [] \<longleftrightarrow> s = []"
  by (cases s) (simp_all split: option.splits)

lemma of_char_ascii: "(of_char c :: nat) < 128 \<longleftrightarrow> \<not> digit7 c"
  by (cases c) simp

lemma jsonString_ascii: "list_all (\<lambda>c. \<not> digit7 c) s \<Longrightarrow> jsonString s = s"
  by (induction s) (simp_all add: of_char_ascii)

lemma jsonString_invalid_byte:
  "jsonString [CHR ''a'', CHR 0xFF, CHR ''b'']
     = [CHR ''a'', CHR 0xEF, CHR 0xBF, CHR 0xBD, CHR ''b'']"
  by (simp add: utf8_DecodeRuneInString_def utf8_first_def byteAt_def)

lemma jsonString_valid_encoding: "jsonString [CHR 0xC3, CHR 0xA9] = [CHR 0xC3, CHR 0xA9]"
  by (simp add: utf8_DecodeRuneInString_def utf8_first_def byteAt_def)

text \<open>
  When \<^verbatim>\<open>saveTokens\<close> succeeds, the token file holds the JSON of the record it was
  given: the same expiry and the strings as the encoder coerces them. Its access
  token is empty exactly when that of the record is.
\<close>

lemma saveTokens_file:
  assumes "fst (saveTokens m t w) = None"
  shows "tokenFile (snd (snd (saveTokens m t w)))
           = Present (TokenJSON \<lparr>AccessToken = jsonString (AccessToken t),
                                  RefreshToken = jsonString (RefreshToken t),
                                  ExpiresAt = ExpiresAt t,
                                  Scope = jsonString (Scope t),
                                  TokenType = jsonString (TokenType t)\<rparr>)"
  using assms
  by (cases "appDir w"; cases "mkdirAllErr w"; cases "tokenFile w")
     (simp_all add: saveTokens_def Let_def spotifyTokenPath_def json_MarshalIndent_def
        os_WriteFile_def logCall_def)

lemma saveTokens_file_access_token:
  assumes "fst (saveTokens m t w) = None"
  shows "\<exists>d. tokenFile (snd (snd (saveTokens m t w))) = Present (TokenJSON d)
             \<and> (AccessToken d = [] \<longleftrightarrow> AccessToken t = [])"
  using saveTokens_file [OF assms] by (simp add: jsonString_empty)

section \<open>Logout\<close>

lemma os_Remove_twice: "snd (os_Remove (snd (os_Remove f))) = snd (os_Remove f)"
  by (cases f) (simp_all add: os_Remove_def)

lemma os_Remove_removable: "removable f \<Longrightarrow> snd (os_Remove f) = Absent"
  by (cases f) (simp_all add: os_Remove_def removable_def)

lemma logout_result:
  "logout m w =
     (None, m\<lparr>tokens := None, profile := None\<rparr>,
      (case appDir w of Inl e \<Rightarrow> w
       | Inr dir \<Rightarrow> w\<lparr>tokenFile := snd (os_Remove (tokenFile w))\<rparr>))"
  by (simp add: logout_def spotifyTokenPath_def Let_def split: sum.splits)

lemma status_without_tokens:
  assumes "tokens m = None" and "appDir w = Inr dir" and "tokenFile w = Absent"
  shows "status m w = (zeroStatus, None, m, w)"
  using assms
  by (simp add: status_def loadTokensFromDisk_def spotifyTokenPath_def os_ReadFile_def
      zeroStatus_def)

text \<open>
  Claim C9, as amended. \<^verbatim>\<open>logout\<close> returns no error in every state and every world,
  clears the in-memory token and profile, and a second logout changes nothing more.
  When the application directory resolves and the token file is absent or removable,
  no token file is left and a status check that follows reports
  \<open>Authenticated = False\<close> without error.
\<close>

theorem logout_total_and_idempotent:
  "fst (logout m w) = None
   \<and> tokens (fst (snd (logout m w))) = None
   \<and> profile (fst (snd (logout m w))) = None
   \<and> logout (fst (snd (logout m w))) (snd (snd (logout m w))) = logout m w
   \<and> (\<not> isl (appDir w) \<and> removable (tokenFile w) \<longrightarrow>
        tokenFile (snd (snd (logout m w))) = Absent
        \<and> status (fst (snd (logout m w))) (snd (snd (logout m w)))
            = (zeroStatus, None, fst (snd (logout m w)), snd (snd (logout m w))))"
proof (intro conjI impI)
  show "logout (fst (snd (logout m w))) (snd (snd (logout m w))) = logout m w"
    by (cases "appDir w") (simp_all add: logout_result os_Remove_twice)
next
  assume ok: "\<not> isl (appDir w) \<and> removable (tokenFile w)"
  then obtain dir where dir: "appDir w = Inr dir"
    by (cases "appDir w") simp_all
  show gone: "tokenFile (snd (snd (logout m w))) = Absent"
    using ok dir by (simp add: logout_result os_Remove_removable)
  show "status (fst (snd (logout m w))) (snd (snd (logout m w)))
          = (zeroStatus, None, fst (snd (logout m w)), snd (snd (logout m w)))"
  proof (rule status_without_tokens)
    show "tokens (fst (snd (logout m w))) = None" by (simp add: logout_result)
    show "appDir (snd (snd (logout m w))) = Inr dir" using dir by (simp add: logout_result)
    show "tokenFile (snd (snd (logout m w))) = Absent" by (rule gone)
  qed
qed (simp_all add: logout_result)

theorem logout_total_and_idempotent_witness:
  "fst (logout (managerWith freshToken) storedWorld) = None
   \<and> tokenFile (snd (snd (logout (managerWith freshToken) storedWorld))) = Absent
   \<and> fst (status (fst (snd (logout (managerWith freshToken) storedWorld)))
                 (snd (snd (logout (managerWith freshToken) storedWorld)))) = zeroStatus
   \<and> fst (snd (status (fst (snd (logout (managerWith freshToken) storedWorld)))
                      (snd (snd (logout (managerWith freshToken) storedWorld))))) = None"
  using logout_total_and_idempotent [of "managerWith freshToken" storedWorld]
  by (simp add: storedWorld_def exampleWorld_def removable_def)

text \<open>
  The claim as the specification states it fails where the removal is skipped or
  refused, which \<^verbatim>\<open>logout\<close> ignores: with an unresolvable application directory the
  status check after logout returns an error; with a token file that cannot be removed
  the file stays and the status check after logout reports an authenticated session.
\<close>

theorem logout_counterexample:
  "fst (snd (status (fst (snd (logout emptyManager homelessWorld)))
                    (snd (snd (logout emptyManager homelessWorld)))))
     = Some (OSError (ErrOther ''$HOME is not defined''))
   \<and> tokenFile (snd (snd (logout (managerWith freshToken) readOnlyWorld)))
       = ReadOnly (TokenJSON freshToken)
   \<and> Authenticated (fst (status (fst (snd (logout (managerWith freshToken) readOnlyWorld)))
                                 (snd (snd (logout (managerWith freshToken) readOnlyWorld)))))"
  by (simp add: logout_result homelessWorld_def readOnlyWorld_def exampleWorld_def
      managerWith_def emptyManager_def status_def loadTokensFromDisk_def spotifyTokenPath_def
      os_ReadFile_def os_Remove_def json_Unmarshal_def ensureFreshTokenLocked_def
      fetchProfileLocked_def time_Now_Unix_def freshToken_def someProfile_def)

section \<open>The random tokens of a login\<close>

subsection \<open>The URL-safe encoding\<close>

lemma length_RawURLEncoding:
  "length (RawURLEncoding_EncodeToString xs) = (4 * length xs + 2) div 3"
  by (induction xs rule: RawURLEncoding_EncodeToString.induct) (simp_all add: Let_def)

lemma take_RawURLEncoding:
  "3 * k \<le> length xs \<Longrightarrow>
     take (4 * k) (RawURLEncoding_EncodeToString xs)
       = RawURLEncoding_EncodeToString (take (3 * k) xs)"
proof (induction k arbitrary: xs)
  case 0
  then show ?case by simp
next
  case (Suc k)
  then obtain a b c rest where xs: "xs = a # b # c # rest"
    by (cases xs rule: RawURLEncoding_EncodeToString.cases) simp_all
  have "3 * k \<le> length rest" using Suc.prems xs by simp
  then have "take (4 * k) (RawURLEncoding_EncodeToString rest)
               = RawURLEncoding_EncodeToString (take (3 * k) rest)"
    by (rule Suc.IH)
  moreover have "4 * Suc k = Suc (Suc (Suc (Suc (4 * k))))"
    and "3 * Suc k = Suc (Suc (Suc (3 * k)))"
    by simp_all
  ultimately show ?case
    unfolding xs by (simp only: RawURLEncoding_EncodeToString.simps Let_def take_Suc_Cons
        append_Cons append_Nil)
qed

text \<open>The encoding is injective: a string of characters encodes at most one byte string.\<close>

lemma step64:
  fixes x y :: nat
  assumes "x div 64 = y div 64" and "x mod 64 = y mod 64"
  shows "x = y"
  using assms by (metis mult_div_mod_eq)

lemma sextets_determine:
  fixes n n' :: nat
  assumes "n < 16777216" and "n' < 16777216"
    and s1: "(n div 262144) mod 64 = (n' div 262144) mod 64"
    and s2: "(n div 4096) mod 64 = (n' div 4096) mod 64"
    and s3: "(n div 64) mod 64 = (n' div 64) mod 64"
    and s4: "n mod 64 = n' mod 64"
  shows "n = n'"
proof -
  have "n div 262144 < 64" "n' div 262144 < 64" using assms(1,2) by simp_all
  then have e1: "n div 262144 = n' div 262144" using s1 by simp
  have "n div 4096 div 64 = n div 262144" "n' div 4096 div 64 = n' div 262144"
    using div_mult2_eq [of n 4096 64] div_mult2_eq [of n' 4096 64] by simp_all
  then have "n div 4096 div 64 = n' div 4096 div 64" using e1 by simp
  then have e2: "n div 4096 = n' div 4096" using s2 by (rule step64)
  have "n div 64 div 64 = n div 4096" "n' div 64 div 64 = n' div 4096"
    using div_mult2_eq [of n 64 64] div_mult2_eq [of n' 64 64] by simp_all
  then have "n div 64 div 64 = n' div 64 div 64" using e2 by simp
  then have e3: "n div 64 = n' div 64" using s3 by (rule step64)
  then show ?thesis using s4 by (rule step64)
qed

lemma split_bytes:
  fixes a b c :: nat
  assumes "b < 256" and "c < 256"
  shows "(a * 65536 + b * 256 + c) div 65536 = a"
    and "(a * 65536 + b * 256 + c) mod 65536 div 256 = b"
    and "(a * 65536 + b * 256 + c) mod 256 = c"
proof -
  have lo: "b * 256 + c < 65536" using assms by linarith
  have n: "a * 65536 + b * 256 + c = (b * 256 + c) + a * 65536" by simp
  show "(a * 65536 + b * 256 + c) div 65536 = a"
    unfolding n using lo by simp
  have "(a * 65536 + b * 256 + c) mod 65536 = b * 256 + c"
    unfolding n using lo by simp
  then show "(a * 65536 + b * 256 + c) mod 65536 div 256 = b"
    using assms by simp
  have "a * 65536 + b * 256 + c = c + (a * 256 + b) * 256" by simp
  then show "(a * 65536 + b * 256 + c) mod 256 = c"
    using assms by (metis mod_less mod_mult_self1)
qed

lemma bytes_determined:
  fixes a b c a' b' c' :: nat
  assumes "b < 256" "c < 256" "b' < 256" "c' < 256"
    and "a * 65536 + b * 256 + c = a' * 65536 + b' * 256 + c'"
  shows "a = a' \<and> b = b' \<and> c = c'"
  using split_bytes [of b c a] split_bytes [of b' c' a'] assms by simp

lemma sextet_eq_iff: "sextet i = sextet j \<longleftrightarrow> i mod 64 = j mod 64"
  by (simp add: sextet_def nth_eq_iff_index_eq encodeURL_def)

lemma quantum_determines_bytes:
  fixes a b c a' b' c' :: nat
  assumes bounds: "a < 256" "b < 256" "c < 256" "a' < 256" "b' < 256" "c' < 256"
    and "sextet ((a * 65536 + b * 256 + c) div 262144)
           = sextet ((a' * 65536 + b' * 256 + c') div 262144)"
    and "sextet ((a * 65536 + b * 256 + c) div 4096)
           = sextet ((a' * 65536 + b' * 256 + c') div 4096)"
    and "sextet ((a * 65536 + b * 256 + c) div 64)
           = sextet ((a' * 65536 + b' * 256 + c') div 64)"
    and "sextet (a * 65536 + b * 256 + c) = sextet (a' * 65536 + b' * 256 + c')"
  shows "a = a' \<and> b = b' \<and> c = c'"
proof -
  have "a * 65536 + b * 256 + c < 16777216" "a' * 65536 + b' * 256 + c' < 16777216"
    using bounds by linarith+
  then have "a * 65536 + b * 256 + c = a' * 65536 + b' * 256 + c'"
    using assms(7-10) unfolding sextet_eq_iff by (rule sextets_determine)
  then show ?thesis using bounds by (intro bytes_determined) simp_all
qed

lemma zero_sextets:
  fixes a b :: nat
  shows "(a * 65536 + b * 256) mod 64 = 0" and "(a * 65536) div 64 mod 64 = 0"
    and "(a * 65536) mod 64 = 0"
proof -
  have "a * 65536 + b * 256 = 64 * (a * 1024 + b * 4)" by simp
  then show "(a * 65536 + b * 256) mod 64 = 0" by (metis mod_mult_self1_is_0)
  have e: "a * 65536 = 64 * (64 * (a * 16))" by simp
  show "(a * 65536) mod 64 = 0" by (subst e) simp
  have "(a * 65536) div 64 = 64 * (a * 16)" by simp
  then show "(a * 65536) div 64 mod 64 = 0" by simp
qed

lemma length_encoding_inj:
  fixes m n :: nat
  assumes "(4 * m + 2) div 3 = (4 * n + 2) div 3"
  shows "m = n"
  using assms by arith

lemma RawURLEncoding_inj:
  "RawURLEncoding_EncodeToString xs = RawURLEncoding_EncodeToString ys \<Longrightarrow> xs = ys"
proof (induction xs arbitrary: ys rule: RawURLEncoding_EncodeToString.induct)
  case (1 a b c rest)
  have "length ys = length (a # b # c # rest)"
    using arg_cong [OF "1.prems", of length]
    by (simp only: length_RawURLEncoding)
  then obtain a' b' c' rest' where ys: "ys = a' # b' # c' # rest'"
    by (cases ys rule: RawURLEncoding_EncodeToString.cases) simp_all
  have eq: "sextet ((of_char a * 65536 + of_char b * 256 + of_char c) div 262144)
              = sextet ((of_char a' * 65536 + of_char b' * 256 + of_char c') div 262144)
          \<and> sextet ((of_char a * 65536 + of_char b * 256 + of_char c) div 4096)
              = sextet ((of_char a' * 65536 + of_char b' * 256 + of_char c') div 4096)
          \<and> sextet ((of_char a * 65536 + of_char b * 256 + of_char c) div 64)
              = sextet ((of_char a' * 65536 + of_char b' * 256 + of_char c') div 64)
          \<and> sextet (of_char a * 65536 + of_char b * 256 + of_char c)
              = sextet (of_char a' * 65536 + of_char b' * 256 + of_char c')
          \<and> RawURLEncoding_EncodeToString rest = RawURLEncoding_EncodeToString rest'"
    using "1.prems" unfolding ys
    by (simp only: RawURLEncoding_EncodeToString.simps Let_def append_Cons append_Nil
        list.inject)
  have "(of_char a :: nat) = of_char a' \<and> (of_char b :: nat) = of_char b'
          \<and> (of_char c :: nat) = of_char c'"
    using eq by (intro quantum_determines_bytes nat_of_char_less_256) blast+
  moreover have "rest = rest'" using eq by (intro "1.IH") blast
  ultimately show ?case unfolding ys by simp
next
  case (2 a b)
  have "length ys = length [a, b]"
    using arg_cong [OF "2.prems", of length]
    by (simp only: length_RawURLEncoding)
  then obtain a' b' where ys: "ys = [a', b']"
    by (cases ys rule: RawURLEncoding_EncodeToString.cases) simp_all
  have eq: "sextet ((of_char a * 65536 + of_char b * 256) div 262144)
              = sextet ((of_char a' * 65536 + of_char b' * 256) div 262144)
          \<and> sextet ((of_char a * 65536 + of_char b * 256) div 4096)
              = sextet ((of_char a' * 65536 + of_char b' * 256) div 4096)
          \<and> sextet ((of_char a * 65536 + of_char b * 256) div 64)
              = sextet ((of_char a' * 65536 + of_char b' * 256) div 64)"
    using "2.prems" unfolding ys
    by (simp only: RawURLEncoding_EncodeToString.simps Let_def list.inject simp_thms)
  have last: "sextet (of_char a * 65536 + of_char b * 256)
                = sextet (of_char a' * 65536 + of_char b' * 256)"
    by (simp only: sextet_eq_iff zero_sextets)
  have "(of_char a :: nat) = of_char a' \<and> (of_char b :: nat) = of_char b' \<and> (0::nat) = 0"
    using eq last
      quantum_determines_bytes [of "of_char a" "of_char b" 0 "of_char a'" "of_char b'" 0]
    by (simp only: nat_of_char_less_256 add_0_right)
  then show ?case unfolding ys by simp
next
  case (3 a)
  have "length ys = length [a]"
    using arg_cong [OF "3.prems", of length]
    by (simp only: length_RawURLEncoding)
  then obtain a' where ys: "ys = [a']"
    by (cases ys rule: RawURLEncoding_EncodeToString.cases) simp_all
  have eq: "sextet ((of_char a * 65536) div 262144) = sextet ((of_char a' * 65536) div 262144)
          \<and> sextet ((of_char a * 65536) div 4096) = sextet ((of_char a' * 65536) div 4096)"
    using "3.prems" unfolding ys
    by (simp only: RawURLEncoding_EncodeToString.simps Let_def list.inject simp_thms)
  have last: "sextet ((of_char a * 65536) div 64) = sextet ((of_char a' * 65536) div 64)"
      "sextet (of_char a * 65536) = sextet (of_char a' * 65536)"
    by (simp_all only: sextet_eq_iff zero_sextets)
  have "(of_char a :: nat) = of_char a' \<and> (0::nat) = 0 \<and> (0::nat) = 0"
    using eq last
      quantum_determines_bytes [of "of_char a" 0 0 "of_char a'" 0 0]
    by (simp only: nat_of_char_less_256 add_0_right mult_zero_left)
  then show ?case unfolding ys by simp
next
  case 4
  have "length ys = length ([] :: string)"
    using arg_cong [OF "4.prems", of length]
    by (simp only: length_RawURLEncoding)
  then show ?case by simp
qed

subsection \<open>The verifier and the state token\<close>

lemma randomString_value:
  assumes "randomErr w = None"
  shows "randomString n w =
           (Inr (take n (RawURLEncoding_EncodeToString
                   (map (randomBytes w) [randomDrawn w ..< randomDrawn w + n]))),
            w\<lparr>randomDrawn := randomDrawn w + n\<rparr>)"
  using assms by (simp add: randomString_def rand_Read_def)

lemma randomString_error:
  assumes "randomErr w = Some e"
  shows "randomString n w = (Inl (OSError e), w)"
  using assms by (simp add: randomString_def rand_Read_def)

lemma first_chars_encode_first_bytes:
  assumes "3 * k \<le> n"
  shows "take (4 * k) (RawURLEncoding_EncodeToString (map f [d ..< d + n]))
           = RawURLEncoding_EncodeToString (map f [d ..< d + 3 * k])"
proof -
  have "take (4 * k) (RawURLEncoding_EncodeToString (map f [d ..< d + n]))
          = RawURLEncoding_EncodeToString (take (3 * k) (map f [d ..< d + n]))"
    using assms by (intro take_RawURLEncoding) simp
  also have "take (3 * k) (map f [d ..< d + n]) = map f [d ..< d + 3 * k]"
    using assms by (simp add: take_map)
  finally show ?thesis .
qed

lemma randomString_64:
  assumes "randomErr w = None"
  shows "fst (randomString 64 w)
           = Inr (RawURLEncoding_EncodeToString
                    (map (randomBytes w) [randomDrawn w ..< randomDrawn w + 48]))"
  using assms first_chars_encode_first_bytes [of 16 64 "randomBytes w" "randomDrawn w"]
  by (simp add: randomString_value)

lemma randomString_32:
  assumes "randomErr w = None"
  shows "fst (randomString 32 w)
           = Inr (RawURLEncoding_EncodeToString
                    (map (randomBytes w) [randomDrawn w ..< randomDrawn w + 24]))"
  using assms first_chars_encode_first_bytes [of 8 32 "randomBytes w" "randomDrawn w"]
  by (simp add: randomString_value)

lemma closeServer_random:
  "randomErr (snd (closeServer m w)) = randomErr w
   \<and> randomBytes (snd (closeServer m w)) = randomBytes w
   \<and> randomDrawn (snd (closeServer m w)) = randomDrawn w"
  by (simp add: closeServer_def split: option.splits)

lemma net_Listen_random:
  "randomErr (snd (net_Listen p w)) = randomErr w
   \<and> randomBytes (snd (net_Listen p w)) = randomBytes w
   \<and> randomDrawn (snd (net_Listen p w)) = randomDrawn w"
  by (simp add: net_Listen_def split: option.splits)

lemma openListener_random:
  "randomErr (snd (openListener w)) = randomErr w
   \<and> randomBytes (snd (openListener w)) = randomBytes w
   \<and> randomDrawn (snd (openListener w)) = randomDrawn w"
proof (cases "net_Listen 3000 w")
  case (Pair r w')
  then show ?thesis
    using net_Listen_random [of 3000 w] net_Listen_random [of 0 w']
    by (cases r) (simp_all add: openListener_def)
qed

lemma startLogin_tokens:
  assumes "fst (startLogin m w) = Inr url"
  shows "verifier (fst (snd (startLogin m w)))
           = RawURLEncoding_EncodeToString
               (map (randomBytes w) [randomDrawn w ..< randomDrawn w + 48])
       \<and> state (fst (snd (startLogin m w)))
           = RawURLEncoding_EncodeToString
               (map (randomBytes w) [randomDrawn w + 64 ..< randomDrawn w + 88])
       \<and> randomDrawn (snd (snd (startLogin m w))) = randomDrawn w + 96"
proof -
  obtain m1 w1 where cs: "closeServer m w = (m1, w1)" by (cases "closeServer m w")
  obtain r w2 where ol: "openListener w1 = (r, w2)" by (cases "openListener w1")
  have rnd: "randomErr w2 = randomErr w" "randomBytes w2 = randomBytes w"
      "randomDrawn w2 = randomDrawn w"
    using closeServer_random [of m w] openListener_random [of w1] cs ol by simp_all
  have unfold: "startLogin m w =
     (case r of
        Inl e \<Rightarrow> (Inl (ListenerFailed e), m1, w2)
      | Inr port \<Rightarrow>
          (let m2 = m1\<lparr>redirect := ''http://127.0.0.1:'' @ decimal port @ ''/callback''\<rparr>
           in case generateCodeVerifier w2 of
                (Inl e, w3) \<Rightarrow> (Inl e, m2, ln_Close port w3)
              | (Inr v, w3) \<Rightarrow>
                  (let m3 = m2\<lparr>verifier := v\<rparr> in
                   case randomString 32 w3 of
                     (Inl e, w4) \<Rightarrow> (Inl e, m3\<lparr>state := []\<rparr>, ln_Close port w4)
                   | (Inr st, w4) \<Rightarrow>
                       (let m4 = m3\<lparr>state := st\<rparr>;
                            authURL = buildAuthorizeURL w4 (redirect m4) (state m4) v
                        in (Inr authURL,
                            m4\<lparr>server := Some port, loginWait := Some []\<rparr>, w4)))))"
    using cs ol by (simp add: startLogin_def openListener_def)
  show ?thesis
  proof (cases "randomErr w")
    case (Some e)
    then have "fst (startLogin m w) \<noteq> Inr url"
      using rnd by (cases r) (simp_all add: unfold generateCodeVerifier_def randomString_error)
    then show ?thesis using assms by simp
  next
    case None
    have ok: "randomErr w2 = None" using None rnd by simp
    have ok': "randomErr (w2\<lparr>randomDrawn := randomDrawn w2 + 64\<rparr>) = None" using ok by simp
    have v: "randomString 64 w2 =
        (Inr (RawURLEncoding_EncodeToString
               (map (randomBytes w) [randomDrawn w ..< randomDrawn w + 48])),
         w2\<lparr>randomDrawn := randomDrawn w2 + 64\<rparr>)"
      using randomString_64 [OF ok] randomString_value [OF ok, of 64] rnd by simp
    have s: "fst (randomString 32 (w2\<lparr>randomDrawn := randomDrawn w2 + 64\<rparr>)) =
        Inr (RawURLEncoding_EncodeToString
               (map (randomBytes w) [randomDrawn w + 64 ..< randomDrawn w + 88]))"
      using randomString_32 [OF ok'] rnd by (simp add: add.assoc)
    have d: "randomDrawn (snd (randomString 32 (w2\<lparr>randomDrawn := randomDrawn w2 + 64\<rparr>)))
               = randomDrawn w + 96"
      using randomString_value [OF ok', of 32] rnd by simp
    show ?thesis
    proof (cases r)
      case (Inl e)
      then show ?thesis using assms by (simp add: unfold)
    next
      case (Inr port)
      obtain st w4 where r32: "randomString 32 (w2\<lparr>randomDrawn := randomDrawn w2 + 64\<rparr>)
                                = (st, w4)"
        by (cases "randomString 32 (w2\<lparr>randomDrawn := randomDrawn w2 + 64\<rparr>)")
      then show ?thesis
        using Inr v s d by (simp add: unfold generateCodeVerifier_def Let_def)
    qed
  qed
qed

lemma startLogin_succeeds:
  assumes "randomErr w = None" and "server m = None" and "3000 \<notin> set (busyPorts w)"
  shows "\<exists>url. fst (startLogin m w) = Inr url"
  using assms
  by (simp add: startLogin_def closeServer_def net_Listen_def generateCodeVerifier_def
      randomString_value Let_def)

text \<open>
  Claim C6, as amended. A login that starts draws 64 random bytes for the PKCE
  verifier and then 32 for the state token, and keeps the first 64 and the first 32
  characters of their unpadded URL-safe base64 encodings. The verifier is therefore the
  encoding of the first 48 of its 64 bytes, and the state token the encoding of the
  first 24 of its 32 bytes; each token determines exactly those bytes.
\<close>

theorem login_tokens_encode_48_and_24_random_bytes:
  assumes "fst (startLogin m w) = Inr url"
  shows "verifier (fst (snd (startLogin m w)))
           = RawURLEncoding_EncodeToString
               (map (randomBytes w) [randomDrawn w ..< randomDrawn w + 48])
       \<and> length (verifier (fst (snd (startLogin m w)))) = 64
       \<and> state (fst (snd (startLogin m w)))
           = RawURLEncoding_EncodeToString
               (map (randomBytes w) [randomDrawn w + 64 ..< randomDrawn w + 88])
       \<and> length (state (fst (snd (startLogin m w)))) = 32
       \<and> randomDrawn (snd (snd (startLogin m w))) = randomDrawn w + 96
       \<and> inj RawURLEncoding_EncodeToString"
proof -
  have "inj RawURLEncoding_EncodeToString"
    by (rule injI) (rule RawURLEncoding_inj)
  then show ?thesis
    using startLogin_tokens [OF assms] by (simp add: length_RawURLEncoding)
qed

theorem login_tokens_encode_48_and_24_random_bytes_witness:
  "verifier (fst (snd (startLogin emptyManager drawnWorld)))
     = ''gIGCg4SFhoeIiYqLjI2Oj5CRkpOUlZaXmJmam5ydnp-goaKjpKWmp6ipqqusra6v''
   \<and> state (fst (snd (startLogin emptyManager drawnWorld)))
     = ''wMHCw8TFxsfIycrLzM3Oz9DR0tPU1dbX''
   \<and> randomDrawn (snd (snd (startLogin emptyManager drawnWorld))) = 224"
proof -
  obtain url where "fst (startLogin emptyManager drawnWorld) = Inr url"
    using startLogin_succeeds [of drawnWorld emptyManager]
    by (auto simp: drawnWorld_def exampleWorld_def emptyManager_def)
  then show ?thesis
    using login_tokens_encode_48_and_24_random_bytes [of emptyManager drawnWorld url]
    by (simp add: drawnWorld_def exampleWorld_def sextet_def encodeURL_def)
qed

text \<open>
  The claim as the specification states it fails for the state token: it does not
  depend on the last 8 of the 32 random bytes drawn for it. Two worlds whose random
  streams differ in exactly those bytes issue the same state token.
\<close>

theorem state_token_counterexample:
  "map (randomBytes exampleWorld) [64..<96] \<noteq> map (randomBytes alteredWorld) [64..<96]
   \<and> state (fst (snd (startLogin emptyManager exampleWorld)))
       = ''QEFCQ0RFRkdISUpLTE1OT1BRUlNUVVZX''
   \<and> state (fst (snd (startLogin emptyManager alteredWorld)))
       = ''QEFCQ0RFRkdISUpLTE1OT1BRUlNUVVZX''"
proof (intro conjI)
  show "map (randomBytes exampleWorld) [64..<96] \<noteq> map (randomBytes alteredWorld) [64..<96]"
    by (simp add: exampleWorld_def alteredWorld_def char_of_def)
  obtain url where "fst (startLogin emptyManager exampleWorld) = Inr url"
    using startLogin_succeeds [of exampleWorld emptyManager]
    by (auto simp: exampleWorld_def emptyManager_def)
  then show "state (fst (snd (startLogin emptyManager exampleWorld)))
               = ''QEFCQ0RFRkdISUpLTE1OT1BRUlNUVVZX''"
    using startLogin_tokens [of emptyManager exampleWorld url]
    by (simp add: exampleWorld_def sextet_def encodeURL_def)
  obtain url' where "fst (startLogin emptyManager alteredWorld) = Inr url'"
    using startLogin_succeeds [of alteredWorld emptyManager]
    by (auto simp: alteredWorld_def exampleWorld_def emptyManager_def)
  then show "state (fst (snd (startLogin emptyManager alteredWorld)))
               = ''QEFCQ0RFRkdISUpLTE1OT1BRUlNUVVZX''"
    using startLogin_tokens [of emptyManager alteredWorld url']
    by (simp add: alteredWorld_def exampleWorld_def sextet_def encodeURL_def)
qed

section \<open>The paginated fetch coordinator\<close>

subsection \<open>An invariant of the runs\<close>

lemma offset_workerJob [simp]: "offset (workerJob ctx fetch offs) = offs"
  by (simp add: workerJob_def split: option.splits prod.splits)

lemma fromJob_workerJob: "fromJob fetch ctx (workerJob ctx fetch offs)"
  by (cases ctx) (simp_all add: fromJob_def workerJob_def split: option.splits prod.splits)

lemma fromJob_ctx_done:
  "fromJob fetch None res \<Longrightarrow> fromJob fetch (Some e) res"
  by (simp add: fromJob_def)

lemma inflight_update:
  assumes "i < length ws"
  shows "mset (inflight (ws[i := wk])) + mset (sendingOf (ws ! i))
           = mset (inflight ws) + mset (sendingOf wk)"
  using assms
proof (induction ws arbitrary: i)
  case Nil
  then show ?case by simp
next
  case (Cons w ws)
  show ?case
  proof (cases i)
    case 0
    then show ?thesis by (simp add: inflight_def)
  next
    case (Suc j)
    then have "j < length ws" using Cons.prems by simp
    then have "mset (inflight (ws[j := wk])) + mset (sendingOf (ws ! j))
                 = mset (inflight ws) + mset (sendingOf wk)"
      by (rule Cons.IH)
    then show ?thesis using Suc by (simp add: inflight_def ac_simps)
  qed
qed

lemma set_inflight_update:
  assumes "i < length ws"
  shows "set (inflight (ws[i := wk])) \<subseteq> set (inflight ws) \<union> set (sendingOf wk)"
proof -
  have "set_mset (mset (inflight (ws[i := wk])) + mset (sendingOf (ws ! i)))
          = set_mset (mset (inflight ws) + mset (sendingOf wk))"
    using inflight_update [OF assms, of wk] by simp
  then show ?thesis by auto
qed

lemma sending_in_inflight:
  assumes "i < length ws" and "ws ! i = Sending res"
  shows "res \<in> set (inflight ws)"
proof -
  have "Sending res \<in> set ws" using assms by (metis nth_mem)
  then show ?thesis by (force simp: inflight_def)
qed

lemma inflight_replicate_Waiting [simp]: "inflight (replicate n Waiting) = []"
  by (induction n) (simp_all add: inflight_def)

lemma firstFailure_Nil [simp]: "firstFailure [] = None"
  by (simp add: firstFailure_def)

lemma poolInv_started: "poolInv fetch offsets (started ctx offsets)"
  by (simp add: poolInv_def started_def Let_def min_def)

lemma firstFailure_snoc:
  "firstFailure (rs @ [res]) =
     (case firstFailure rs of
        Some e \<Rightarrow> Some e
      | None \<Rightarrow> (case err res of None \<Rightarrow> None
                   | Some e \<Rightarrow> Some (FailedFetchingTracks (offset res) e)))"
proof (induction rs)
  case Nil
  then show ?case by (simp add: firstFailure_def split: option.splits)
next
  case (Cons r rs)
  then show ?case by (simp add: firstFailure_def split: option.splits)
qed

lemma collect_firstErr:
  assumes "firstErr s = firstFailure (arrived s)"
  shows "firstErr (collect res s) = firstFailure (arrived (collect res s))"
  using assms by (simp add: collect_def firstFailure_snoc split: option.splits)

lemma collect_fields [simp]:
  "jobs (collect res s) = jobs s"
  "workers (collect res s) = workers s"
  "ctxErr (collect res s) = ctxErr s"
  "jobsClosed (collect res s) = jobsClosed s"
  "resultsClosed (collect res s) = resultsClosed s"
  "returned (collect res s) = returned s"
  "arrived (collect res s) = arrived s @ [res]"
  "collected (collect res s) = (if tracks res \<noteq> None then collected s @ [res] else collected s)"
  by (simp_all add: collect_def)

lemma poolInvD:
  assumes "poolInv fetch offsets s"
  shows "mset (jobs s) + mset (map offset (inflight (workers s)))
           + mset (map offset (arrived s)) = mset offsets"
    and "list_all (fromJob fetch (ctxErr s)) (inflight (workers s))"
    and "list_all (fromJob fetch (ctxErr s)) (arrived s)"
    and "collected s = filter (\<lambda>r. tracks r \<noteq> None) (arrived s)"
    and "firstErr s = firstFailure (arrived s)"
    and "jobsClosed s \<Longrightarrow> jobs s = []"
    and "Exited \<in> set (workers s) \<Longrightarrow> jobsClosed s"
    and "resultsClosed s \<Longrightarrow> jobsClosed s"
    and "resultsClosed s \<Longrightarrow> list_all (\<lambda>wk. wk = Exited) (workers s)"
    and "returned s = Some out \<Longrightarrow> resultsClosed s"
    and "returned s = Some out \<Longrightarrow>
           \<exists>c. out = finish (s\<lparr>ctxErr := c\<rparr>) \<and> (c = None \<or> c = ctxErr s)"
    and "length (workers s) = min spotifyWorkerCount (length offsets)"
  using assms by (simp_all add: poolInv_def)

lemma poolInvI:
  assumes "mset (jobs s) + mset (map offset (inflight (workers s)))
             + mset (map offset (arrived s)) = mset offsets"
    and "list_all (fromJob fetch (ctxErr s)) (inflight (workers s))"
    and "list_all (fromJob fetch (ctxErr s)) (arrived s)"
    and "collected s = filter (\<lambda>r. tracks r \<noteq> None) (arrived s)"
    and "firstErr s = firstFailure (arrived s)"
    and "jobsClosed s \<Longrightarrow> jobs s = []"
    and "Exited \<in> set (workers s) \<Longrightarrow> jobsClosed s"
    and "resultsClosed s \<Longrightarrow> jobsClosed s \<and> list_all (\<lambda>wk. wk = Exited) (workers s)"
    and "\<And>out. returned s = Some out \<Longrightarrow>
           resultsClosed s
           \<and> (\<exists>c. out = finish (s\<lparr>ctxErr := c\<rparr>) \<and> (c = None \<or> c = ctxErr s))"
    and "length (workers s) = min spotifyWorkerCount (length offsets)"
  shows "poolInv fetch offsets s"
  using assms by (cases "returned s") (simp_all add: poolInv_def)

lemma poolInv_Take:
  assumes inv: "poolInv fetch offsets s"
  shows "poolInv fetch offsets (step fetch (Take i) s)"
proof (cases "jobs s")
  case Nil
  then show ?thesis using inv by simp
next
  case (Cons offs rest)
  show ?thesis
  proof (cases "i < length (workers s) \<and> workers s ! i = Waiting")
    case False
    then show ?thesis using inv Cons by (cases "i < length (workers s)") simp_all
  next
    case True
    let ?res = "workerJob (ctxErr s) fetch offs"
    let ?ws = "(workers s)[i := Sending ?res]"
    have st: "step fetch (Take i) s = s\<lparr>jobs := rest, workers := ?ws\<rparr>"
      using Cons True by simp
    have m: "mset (inflight ?ws) = mset (inflight (workers s)) + {#?res#}"
      using inflight_update [of i "workers s" "Sending ?res"] True by simp
    have sub: "set (inflight ?ws) \<subseteq> set (inflight (workers s)) \<union> {?res}"
      using set_inflight_update [of i "workers s" "Sending ?res"] True by simp
    have ne: "\<not> jobsClosed s" using poolInvD(6) [OF inv] Cons by auto
    then have noex: "Exited \<notin> set (workers s)" using poolInvD(7) [OF inv] by auto
    have noex': "Exited \<notin> set ?ws"
    proof
      assume "Exited \<in> set ?ws"
      then have "Exited \<in> insert (Sending ?res) (set (workers s))"
        using set_update_subset_insert by fastforce
      then show False using noex by simp
    qed
    have nores: "\<not> resultsClosed s" using poolInvD(8) [OF inv] ne by auto
    have noret: "returned s = None"
    proof (cases "returned s")
      case (Some out)
      then show ?thesis using poolInvD(10) [OF inv Some] nores by simp
    qed simp
    have all: "list_all (fromJob fetch (ctxErr s)) (inflight ?ws)"
      using poolInvD(2) [OF inv] sub fromJob_workerJob [of fetch "ctxErr s" offs]
      unfolding list_all_iff by blast
    have "mset (map offset (inflight ?ws))
            = mset (map offset (inflight (workers s))) + {#offs#}"
      using arg_cong [OF m, of "image_mset offset"] by simp
    then have count:
      "mset rest + mset (map offset (inflight ?ws)) + mset (map offset (arrived s))
         = mset offsets"
      using poolInvD(1) [OF inv] Cons by simp
    show ?thesis
      unfolding st
    proof (rule poolInvI)
      show "length (workers (s\<lparr>jobs := rest, workers := ?ws\<rparr>))
              = min spotifyWorkerCount (length offsets)"
        using poolInvD(12) [OF inv] by simp
    qed (use count all ne noex' nores noret poolInvD(3,4,5) [OF inv] in simp_all)
  qed
qed

lemma finish_cong:
  assumes "firstErr s = firstErr s'" and "ctxErr s = ctxErr s'" and "collected s = collected s'"
  shows "finish s = finish s'"
  using assms by (simp add: finish_def cong: option.case_cong)

lemma finish_frame [simp]:
  "finish (s\<lparr>jobsClosed := b\<rparr>) = finish s"
  "finish (s\<lparr>resultsClosed := b\<rparr>) = finish s"
  "finish (s\<lparr>returned := r\<rparr>) = finish s"
  "finish (s\<lparr>jobsClosed := b, ctxErr := c\<rparr>) = finish (s\<lparr>ctxErr := c\<rparr>)"
  "finish (s\<lparr>resultsClosed := b, ctxErr := c\<rparr>) = finish (s\<lparr>ctxErr := c\<rparr>)"
  "finish (s\<lparr>returned := r, ctxErr := c\<rparr>) = finish (s\<lparr>ctxErr := c\<rparr>)"
  by (rule finish_cong; simp)+

lemma poolInv_CloseJobs:
  assumes inv: "poolInv fetch offsets s"
  shows "poolInv fetch offsets (step fetch CloseJobs s)"
proof (cases "jobs s = []")
  case False
  then show ?thesis using inv by simp
next
  case True
  have st: "step fetch CloseJobs s = s\<lparr>jobsClosed := True\<rparr>" using True by simp
  show ?thesis
    unfolding st
  proof (rule poolInvI)
    fix out
    assume "returned (s\<lparr>jobsClosed := True\<rparr>) = Some out"
    then have r: "returned s = Some out" by simp
    show "resultsClosed (s\<lparr>jobsClosed := True\<rparr>)
          \<and> (\<exists>c. out = finish (s\<lparr>jobsClosed := True, ctxErr := c\<rparr>)
                 \<and> (c = None \<or> c = ctxErr (s\<lparr>jobsClosed := True\<rparr>)))"
      using poolInvD(10,11) [OF inv r] by simp
  qed (use True poolInvD(1,2,3,4,5,9,12) [OF inv] in simp_all)
qed

lemma poolInv_CloseResults:
  assumes inv: "poolInv fetch offsets s"
  shows "poolInv fetch offsets (step fetch CloseResults s)"
proof (cases "jobsClosed s \<and> list_all (\<lambda>wk. wk = Exited) (workers s)")
  case False
  then show ?thesis using inv by auto
next
  case True
  have st: "step fetch CloseResults s = s\<lparr>resultsClosed := True\<rparr>" using True by simp
  show ?thesis
    unfolding st
  proof (rule poolInvI)
    fix out
    assume "returned (s\<lparr>resultsClosed := True\<rparr>) = Some out"
    then have r: "returned s = Some out" by simp
    show "resultsClosed (s\<lparr>resultsClosed := True\<rparr>)
          \<and> (\<exists>c. out = finish (s\<lparr>resultsClosed := True, ctxErr := c\<rparr>)
                 \<and> (c = None \<or> c = ctxErr (s\<lparr>resultsClosed := True\<rparr>)))"
      using poolInvD(11) [OF inv r] by simp
  qed (use True poolInvD(1,2,3,4,5,6,7,12) [OF inv] in simp_all)
qed

lemma poolInv_CtxDone:
  assumes inv: "poolInv fetch offsets s"
  shows "poolInv fetch offsets (step fetch (CtxDone e) s)"
proof (cases "ctxErr s = None")
  case False
  then show ?thesis using inv by (cases "ctxErr s") simp_all
next
  case True
  have st: "step fetch (CtxDone e) s = s\<lparr>ctxErr := Some e\<rparr>" using True by simp
  have a1: "list_all (fromJob fetch (Some e)) (inflight (workers s))"
    using poolInvD(2) [OF inv] True fromJob_ctx_done [of fetch _ e]
    by (simp add: list_all_iff)
  have a2: "list_all (fromJob fetch (Some e)) (arrived s)"
    using poolInvD(3) [OF inv] True fromJob_ctx_done [of fetch _ e]
    by (simp add: list_all_iff)
  show ?thesis
    unfolding st
  proof (rule poolInvI)
    fix out
    assume "returned (s\<lparr>ctxErr := Some e\<rparr>) = Some out"
    then have r: "returned s = Some out" by simp
    then obtain c where "out = finish (s\<lparr>ctxErr := c\<rparr>)" "c = None \<or> c = ctxErr s"
      using poolInvD(11) [OF inv r] by blast
    then have "out = finish (s\<lparr>ctxErr := None\<rparr>)" using True by auto
    then show "resultsClosed (s\<lparr>ctxErr := Some e\<rparr>)
          \<and> (\<exists>c. out = finish (s\<lparr>ctxErr := Some e, ctxErr := c\<rparr>)
                 \<and> (c = None \<or> c = ctxErr (s\<lparr>ctxErr := Some e\<rparr>)))"
      using poolInvD(10) [OF inv r] by (intro conjI exI [of _ None]) simp_all
  qed (use a1 a2 poolInvD(1,4,5,6,7,8,9,12) [OF inv] in simp_all)
qed

lemma poolInv_Return:
  assumes inv: "poolInv fetch offsets s"
  shows "poolInv fetch offsets (step fetch Return s)"
proof (cases "resultsClosed s \<and> returned s = None")
  case False
  then show ?thesis using inv by auto
next
  case True
  have st: "step fetch Return s = s\<lparr>returned := Some (finish s)\<rparr>" using True by simp
  show ?thesis
    unfolding st
  proof (rule poolInvI)
    fix out
    assume "returned (s\<lparr>returned := Some (finish s)\<rparr>) = Some out"
    then have "out = finish s" by simp
    then show "resultsClosed (s\<lparr>returned := Some (finish s)\<rparr>)
          \<and> (\<exists>c. out = finish (s\<lparr>returned := Some (finish s), ctxErr := c\<rparr>)
                 \<and> (c = None \<or> c = ctxErr (s\<lparr>returned := Some (finish s)\<rparr>)))"
      using True by (intro conjI exI [of _ "ctxErr s"]) simp_all
  qed (use poolInvD(1,2,3,4,5,6,7,8,9,12) [OF inv] in simp_all)
qed

lemma not_all_Exited:
  assumes "i < length ws" and "ws ! i \<noteq> Exited"
  shows "\<not> list_all (\<lambda>wk. wk = Exited) ws"
  using assms by (auto simp: list_all_length)

lemma Exited_after_update:
  assumes "Exited \<in> set (ws[i := wk])" and "wk \<noteq> Exited"
  shows "Exited \<in> set ws"
proof -
  have "Exited \<in> insert wk (set ws)"
    using assms(1) set_update_subset_insert by fastforce
  then show ?thesis using assms(2) by auto
qed

lemma poolInv_Deliver:
  assumes inv: "poolInv fetch offsets s"
  shows "poolInv fetch offsets (step fetch (Deliver i) s)"
proof (cases "i < length (workers s)")
  case False
  then show ?thesis using inv by simp
next
  case len: True
  show ?thesis
  proof (cases "workers s ! i")
    case Waiting
    then show ?thesis using inv len by simp
  next
    case Exited
    then show ?thesis using inv len by simp
  next
    case (Sending res)
    let ?ws = "(workers s)[i := Waiting]"
    let ?s' = "collect res (s\<lparr>workers := ?ws\<rparr>)"
    have st: "step fetch (Deliver i) s = ?s'" using len Sending by simp
    have m: "mset (inflight ?ws) + {#res#} = mset (inflight (workers s))"
      using inflight_update [of i "workers s" Waiting] len Sending by simp
    have sub: "set (inflight ?ws) \<subseteq> set (inflight (workers s))"
      using set_inflight_update [of i "workers s" Waiting] len by simp
    have res: "fromJob fetch (ctxErr s) res"
      using poolInvD(2) [OF inv] sending_in_inflight [OF len Sending]
      by (simp add: list_all_iff)
    have nores: "\<not> resultsClosed s"
      using poolInvD(9) [OF inv] not_all_Exited [OF len] Sending by auto
    have noret: "returned s = None"
    proof (cases "returned s")
      case (Some out)
      then show ?thesis using poolInvD(10) [OF inv Some] nores by simp
    qed simp
    have part: "mset (map offset (inflight (workers s)))
                  = mset (map offset (inflight ?ws)) + {#offset res#}"
      using arg_cong [OF m, of "image_mset offset"] by simp
    have count:
      "mset (jobs s) + mset (map offset (inflight ?ws)) + mset (map offset (arrived s @ [res]))
         = mset offsets"
      using poolInvD(1) [OF inv] unfolding part by simp
    have all: "list_all (fromJob fetch (ctxErr s)) (inflight ?ws)"
      using poolInvD(2) [OF inv] sub unfolding list_all_iff by blast
    have ex: "Exited \<in> set ?ws \<Longrightarrow> jobsClosed s"
      using Exited_after_update [of "workers s" i Waiting] poolInvD(7) [OF inv] by simp
    have fe: "firstErr ?s' = firstFailure (arrived ?s')"
      using poolInvD(5) [OF inv] by (intro collect_firstErr) simp
    show ?thesis
      unfolding st
    proof (rule poolInvI)
      show "firstErr ?s' = firstFailure (arrived ?s')" by (rule fe)
      show "length (workers ?s') = min spotifyWorkerCount (length offsets)"
        using poolInvD(12) [OF inv] by simp
      show "collected ?s' = filter (\<lambda>r. tracks r \<noteq> None) (arrived ?s')"
        using poolInvD(4) [OF inv] by simp
    qed (use count all res ex nores noret poolInvD(3,6) [OF inv] in simp_all)
  qed
qed

lemma poolInv_Exit:
  assumes inv: "poolInv fetch offsets s"
  shows "poolInv fetch offsets (step fetch (Exit i) s)"
proof (cases "jobsClosed s \<and> i < length (workers s) \<and> workers s ! i = Waiting")
  case False
  then show ?thesis using inv by auto
next
  case True
  let ?ws = "(workers s)[i := Exited]"
  have st: "step fetch (Exit i) s = s\<lparr>workers := ?ws\<rparr>" using True by simp
  have m: "mset (inflight ?ws) = mset (inflight (workers s))"
    using inflight_update [of i "workers s" Exited] True by simp
  have sub: "set (inflight ?ws) \<subseteq> set (inflight (workers s))"
    using set_inflight_update [of i "workers s" Exited] True by simp
  have nores: "\<not> resultsClosed s"
    using poolInvD(9) [OF inv] not_all_Exited [of i "workers s"] True by auto
  have noret: "returned s = None"
  proof (cases "returned s")
    case (Some out)
    then show ?thesis using poolInvD(10) [OF inv Some] nores by simp
  qed simp
  have "mset (map offset (inflight ?ws)) = mset (map offset (inflight (workers s)))"
    using arg_cong [OF m, of "image_mset offset"] by simp
  then have count:
    "mset (jobs s) + mset (map offset (inflight ?ws)) + mset (map offset (arrived s))
       = mset offsets"
    using poolInvD(1) [OF inv] by simp
  have all: "list_all (fromJob fetch (ctxErr s)) (inflight ?ws)"
    using poolInvD(2) [OF inv] sub unfolding list_all_iff by blast
  show ?thesis
    unfolding st
  proof (rule poolInvI)
    show "length (workers (s\<lparr>workers := ?ws\<rparr>)) = min spotifyWorkerCount (length offsets)"
      using poolInvD(12) [OF inv] by simp
  qed (use True count all nores noret poolInvD(3,4,5,6) [OF inv] in simp_all)
qed

lemma poolInv_step:
  assumes "poolInv fetch offsets s"
  shows "poolInv fetch offsets (step fetch a s)"
  using assms
  by (cases a)
     (simp_all only: poolInv_Take poolInv_CloseJobs poolInv_Deliver poolInv_Exit
        poolInv_CloseResults poolInv_CtxDone poolInv_Return)

lemma poolInv_exec:
  assumes "poolInv fetch offsets s"
  shows "poolInv fetch offsets (exec fetch schedule s)"
  using assms by (induction schedule arbitrary: s) (simp_all add: poolInv_step)

lemma poolInv_run:
  assumes "offsets \<noteq> []"
  shows "poolInv fetch offsets (runTrackPageWorkers schedule ctx offsets fetch)"
  using assms by (simp add: runTrackPageWorkers_def poolInv_exec poolInv_started)

subsection \<open>What a returned call has computed\<close>

lemma inflight_all_Exited:
  "list_all (\<lambda>wk. wk = Exited) ws \<Longrightarrow> inflight ws = []"
  by (induction ws) (simp_all add: inflight_def)

lemma returned_all_arrived:
  assumes inv: "poolInv fetch offsets s" and ret: "returned s = Some out"
  shows "mset (map offset (arrived s)) = mset offsets"
proof -
  have rc: "resultsClosed s" by (rule poolInvD(10) [OF inv ret])
  have "jobs s = []" using poolInvD(6) [OF inv] poolInvD(8) [OF inv rc] by simp
  moreover have "inflight (workers s) = []"
    using poolInvD(9) [OF inv rc] by (rule inflight_all_Exited)
  ultimately show ?thesis using poolInvD(1) [OF inv] by simp
qed

lemma insort_key_map:
  "insort_key f (g x) (map g xs) = map g (insort_key (\<lambda>y. f (g y)) x xs)"
  by (induction xs) simp_all

lemma sort_key_map: "sort_key f (map g xs) = map g (sort_key (\<lambda>y. f (g y)) xs)"
  by (induction xs) (simp_all add: insort_key_map)

lemma sort_key_pages:
  fixes page :: "int \<Rightarrow> 'a trackPageResult"
  assumes "\<And>offs. offset (page offs) = offs" and "mset xs = mset ys"
  shows "sort_key offset (map page xs) = sort_key offset (map page ys)"
proof -
  have "sort xs = sort ys"
    using assms(2) by (intro properties_for_sort) simp_all
  then show ?thesis by (simp add: sort_key_map assms(1))
qed

lemma sequentialFetch_page: "sequentialFetch fetch offsets = map (page fetch) offsets"
  by (simp add: sequentialFetch_def page_def)

lemma firstFailure_None_iff:
  "firstFailure rs = None \<longleftrightarrow> list_all (\<lambda>r. err r = None) rs"
proof (induction rs)
  case Nil
  then show ?case by (simp add: firstFailure_def)
next
  case (Cons r rs)
  then show ?case by (cases "err r") (simp_all add: firstFailure_def)
qed

lemma sequentialFetch_sorted:
  "sort_key offset (sequentialFetch fetch offsets) = sequentialFetch fetch (sort offsets)"
  by (simp add: sequentialFetch_page sort_key_map page_def)

lemma tracks_of_kept_pages:
  "concat (map (\<lambda>r. elems (tracks r)) (filter (\<lambda>r. tracks r \<noteq> None) rs))
     = concat (map (\<lambda>r. elems (tracks r)) rs)"
  by (induction rs) auto

lemma run_success:
  assumes inv: "poolInv fetch offsets s" and ret: "returned s = Some out"
    and ok: "\<forall>offs\<in>set offsets. snd (fetch offs) = None"
    and noerr: "snd out = None"
  shows "fst out = Some (filter (\<lambda>r. tracks r \<noteq> None)
                           (sequentialFetch fetch (sort offsets)))"
proof -
  have all: "mset (map offset (arrived s)) = mset offsets"
    by (rule returned_all_arrived [OF inv ret])
  obtain c where c: "out = finish (s\<lparr>ctxErr := c\<rparr>)"
    using poolInvD(11) [OF inv ret] by blast
  have fe: "firstErr s = None"
    using c noerr by (cases "firstErr s") (simp_all add: finish_def)
  then have out: "out = (Some (sort_key offset (filter (\<lambda>r. tracks r \<noteq> None) (arrived s))),
                         None)"
    using c noerr poolInvD(4) [OF inv] by (cases c) (simp_all add: finish_def)
  have clean: "list_all (\<lambda>r. err r = None) (arrived s)"
    using fe poolInvD(5) [OF inv] by (simp add: firstFailure_None_iff)
  have pg: "r = page fetch (offset r)" if "r \<in> set (arrived s)" for r
  proof -
    have "offset r \<in> set (map offset (arrived s))" using that by simp
    then have "offset r \<in> set offsets" using all by (metis set_mset_mset)
    then have f: "snd (fetch (offset r)) = None" using ok by blast
    have e: "err r = None" using clean that by (simp add: list_all_iff)
    have "fromJob fetch (ctxErr s) r"
      using poolInvD(3) [OF inv] that by (simp add: list_all_iff)
    then have "r = workerJob None fetch (offset r)"
      using e by (auto simp: fromJob_def dest: arg_cong [where f = err])
    then show ?thesis
      using f by (cases "fetch (offset r)") (simp add: workerJob_def page_def)
  qed
  have arr: "arrived s = map (page fetch) (map offset (arrived s))"
    using pg by (simp add: map_idI [symmetric] comp_def)
  have "sort_key offset (arrived s) = sort_key offset (map (page fetch) offsets)"
    by (subst arr) (rule sort_key_pages [OF _ all], simp add: page_def)
  then have "sort_key offset (arrived s) = sequentialFetch fetch (sort offsets)"
    using sequentialFetch_sorted [of fetch offsets] by (simp add: sequentialFetch_page)
  then have "sort_key offset (filter (\<lambda>r. tracks r \<noteq> None) (arrived s))
               = filter (\<lambda>r. tracks r \<noteq> None) (sequentialFetch fetch (sort offsets))"
    by (simp add: filter_sort [symmetric])
  then show ?thesis using out by simp
qed

lemma run_context_error:
  assumes inv: "poolInv fetch offsets s" and ret: "returned s = Some out"
    and ok: "\<forall>offs\<in>set offsets. snd (fetch offs) = None"
    and failed: "snd out \<noteq> None"
  shows "fst out = None
       \<and> (\<exists>e. ctxErr s = Some e
              \<and> (snd out = Some e
                  \<or> (\<exists>offs\<in>set offsets. snd out = Some (FailedFetchingTracks offs e))))"
proof -
  have all: "mset (map offset (arrived s)) = mset offsets"
    by (rule returned_all_arrived [OF inv ret])
  obtain c where c: "out = finish (s\<lparr>ctxErr := c\<rparr>)" "c = None \<or> c = ctxErr s"
    using poolInvD(11) [OF inv ret] by blast
  show ?thesis
  proof (cases "firstErr s")
    case None
    then obtain e where e: "c = Some e" "out = (None, Some e)"
      using c(1) failed by (cases c) (simp_all add: finish_def)
    then have "ctxErr s = Some e" using c(2) by simp
    then show ?thesis using e(2) by simp
  next
    case (Some fe)
    then have out: "out = (None, Some fe)" using c(1) by (simp add: finish_def)
    have "firstFailure (arrived s) = Some fe" using Some poolInvD(5) [OF inv] by simp
    then obtain r e where r: "find (\<lambda>r. err r \<noteq> None) (arrived s) = Some r"
        "err r = Some e" "fe = FailedFetchingTracks (offset r) e"
      by (auto simp: firstFailure_def split: option.splits)
    then have r_in: "r \<in> set (arrived s)" by (auto simp: find_Some_iff)
    then have "offset r \<in> set (map offset (arrived s))" by simp
    then have mem: "offset r \<in> set offsets" using all by (metis set_mset_mset)
    then have f: "snd (fetch (offset r)) = None" using ok by blast
    have "fromJob fetch (ctxErr s) r"
      using poolInvD(3) [OF inv] r_in by (simp add: list_all_iff)
    then have "ctxErr s = Some e"
      using r(2) f
      by (cases "fetch (offset r)")
         (auto simp: fromJob_def workerJob_def dest: arg_cong [where f = err])
    then show ?thesis using out r(3) mem by auto
  qed
qed

lemma run_no_error:
  assumes inv: "poolInv fetch offsets s" and ret: "returned s = Some out"
    and ok: "\<forall>offs\<in>set offsets. snd (fetch offs) = None"
    and ctx: "ctxErr s = None"
  shows "snd out = None"
proof (rule ccontr)
  assume "snd out \<noteq> None"
  then show False using run_context_error [OF inv ret ok] ctx by simp
qed

lemma run_failure:
  assumes inv: "poolInv fetch offsets s" and ret: "returned s = Some out"
    and bad: "\<exists>offs\<in>set offsets. snd (fetch offs) \<noteq> None"
  shows "\<exists>res e. find (\<lambda>r. err r \<noteq> None) (arrived s) = Some res
           \<and> err res = Some e \<and> offset res \<in> set offsets
           \<and> (snd (fetch (offset res)) = Some e \<or> ctxErr s = Some e)
           \<and> out = (None, Some (FailedFetchingTracks (offset res) e))"
proof -
  have all: "mset (map offset (arrived s)) = mset offsets"
    by (rule returned_all_arrived [OF inv ret])
  have job: "fromJob fetch (ctxErr s) r" if "r \<in> set (arrived s)" for r
    using poolInvD(3) [OF inv] that by (simp add: list_all_iff)
  obtain offs where offs: "offs \<in> set offsets" "snd (fetch offs) \<noteq> None"
    using bad by blast
  then have "offs \<in> set (map offset (arrived s))" using all by (metis set_mset_mset)
  then obtain r where r: "r \<in> set (arrived s)" "offset r = offs" by auto
  have "err r \<noteq> None"
    using job [OF r(1)] r(2) offs(2)
    by (cases "fetch offs")
       (auto simp: fromJob_def workerJob_def
          dest: arg_cong [where f = err] split: option.splits)
  then obtain res where res: "find (\<lambda>r. err r \<noteq> None) (arrived s) = Some res"
    using r(1) by (cases "find (\<lambda>r. err r \<noteq> None) (arrived s)") (auto simp: find_None_iff)
  then have res_in: "res \<in> set (arrived s)" and "err res \<noteq> None"
    by (auto simp: find_Some_iff)
  then obtain e where e: "err res = Some e" by auto
  have "offset res \<in> set (map offset (arrived s))" using res_in by simp
  then have mem: "offset res \<in> set offsets" using all by (metis set_mset_mset)
  have cause: "snd (fetch (offset res)) = Some e \<or> ctxErr s = Some e"
    using job [OF res_in] e
    by (cases "fetch (offset res)")
       (auto simp: fromJob_def workerJob_def
          dest: arg_cong [where f = err] split: option.splits)
  have fe: "firstErr s = Some (FailedFetchingTracks (offset res) e)"
    using poolInvD(5) [OF inv] res e by (simp add: firstFailure_def)
  obtain c where "out = finish (s\<lparr>ctxErr := c\<rparr>)"
    using poolInvD(11) [OF inv ret] by blast
  then have "out = (None, Some (FailedFetchingTracks (offset res) e))"
    using fe by (simp add: finish_def)
  then show ?thesis using res e mem cause by blast
qed

subsection \<open>Every run can be completed\<close>

lemma exec_append: "exec fetch (as @ bs) s = exec fetch bs (exec fetch as s)"
  by (induction as arbitrary: s) simp_all

lemma Deliver_frame:
  "jobs (step fetch (Deliver i) s) = jobs s"
  "jobsClosed (step fetch (Deliver i) s) = jobsClosed s"
  "length (workers (step fetch (Deliver i) s)) = length (workers s)"
  by (cases "workers s ! i"; simp)+

lemma Deliver_others:
  "j \<noteq> i \<Longrightarrow> workers (step fetch (Deliver i) s) ! j = workers s ! j"
  by (cases "workers s ! i") simp_all

lemma Deliver_self:
  "i < length (workers s) \<Longrightarrow> \<not> isSending (workers (step fetch (Deliver i) s) ! i)"
  by (cases "workers s ! i") simp_all

lemma flush_workers:
  assumes "k \<le> length (workers s)"
  shows "jobs (exec fetch (map Deliver [0..<k]) s) = jobs s
       \<and> jobsClosed (exec fetch (map Deliver [0..<k]) s) = jobsClosed s
       \<and> length (workers (exec fetch (map Deliver [0..<k]) s)) = length (workers s)
       \<and> (\<forall>i<k. \<not> isSending (workers (exec fetch (map Deliver [0..<k]) s) ! i))"
  using assms
proof (induction k)
  case 0
  then show ?case by simp
next
  case (Suc k)
  let ?s = "exec fetch (map Deliver [0..<k]) s"
  have IH: "jobs ?s = jobs s" "jobsClosed ?s = jobsClosed s"
      "length (workers ?s) = length (workers s)"
      "\<forall>i<k. \<not> isSending (workers ?s ! i)"
    using Suc by simp_all
  have ex: "exec fetch (map Deliver [0..<Suc k]) s = step fetch (Deliver k) ?s"
    by (simp add: exec_append)
  have "\<not> isSending (workers (step fetch (Deliver k) ?s) ! i)" if "i < Suc k" for i
  proof (cases "i = k")
    case True
    then show ?thesis using Deliver_self [of k ?s fetch] IH(3) Suc.prems by simp
  next
    case False
    then show ?thesis using Deliver_others [of i k fetch ?s] IH(4) that by simp
  qed
  then show ?case unfolding ex using IH by (simp add: Deliver_frame del: step.simps)
qed

lemma flush_quiet: "quiet (exec fetch (map Deliver [0..<length (workers s)]) s)"
  using flush_workers [of "length (workers s)" s fetch]
  by (simp add: quiet_def list_all_length)

lemma quiet_Waiting:
  assumes "quiet s" and "Exited \<notin> set (workers s)" and "i < length (workers s)"
  shows "workers s ! i = Waiting"
proof (cases "workers s ! i")
  case (Sending res)
  then show ?thesis using assms by (auto simp: quiet_def list_all_length)
next
  case Exited
  then show ?thesis using assms by (metis nth_mem)
qed simp

lemma serve_one:
  assumes "jobs s = offs # rest" and "workers s \<noteq> []" and "workers s ! 0 = Waiting"
  shows "jobs (exec fetch [Take 0, Deliver 0] s) = rest
       \<and> workers (exec fetch [Take 0, Deliver 0] s) = workers s
       \<and> jobsClosed (exec fetch [Take 0, Deliver 0] s) = jobsClosed s"
proof -
  have len: "0 < length (workers s)" using assms(2) by simp
  have "(workers s)[0 := Waiting] = workers s"
    using assms(3) by (metis list_update_id)
  then show ?thesis using assms len by (simp add: collect_def)
qed

lemma serve_all:
  assumes "poolInv fetch offsets s" and "quiet s" and "offsets \<noteq> []" and "jobs s = js"
  shows "jobs (exec fetch (concat (map (\<lambda>offs. [Take 0, Deliver 0]) js)) s) = []
       \<and> quiet (exec fetch (concat (map (\<lambda>offs. [Take 0, Deliver 0]) js)) s)"
  using assms
proof (induction js arbitrary: s)
  case Nil
  then show ?case by simp
next
  case (Cons offs rest)
  let ?s = "exec fetch [Take 0, Deliver 0] s"
  have "\<not> jobsClosed s" using poolInvD(6) [OF Cons.prems(1)] Cons.prems(4) by auto
  then have noex: "Exited \<notin> set (workers s)" using poolInvD(7) [OF Cons.prems(1)] by auto
  have len: "0 < length (workers s)"
    using poolInvD(12) [OF Cons.prems(1)] Cons.prems(3) by (simp add: spotifyWorkerCount_def)
  have w0: "workers s ! 0 = Waiting" by (rule quiet_Waiting [OF Cons.prems(2) noex len])
  have one: "jobs ?s = rest" "workers ?s = workers s"
    using serve_one [of s offs rest fetch] Cons.prems(4) len w0 by simp_all
  have inv': "poolInv fetch offsets ?s" by (rule poolInv_exec [OF Cons.prems(1)])
  have q': "quiet ?s" using Cons.prems(2) one(2) by (simp add: quiet_def)
  have "jobs (exec fetch (concat (map (\<lambda>offs. [Take 0, Deliver 0]) rest)) ?s) = []
      \<and> quiet (exec fetch (concat (map (\<lambda>offs. [Take 0, Deliver 0]) rest)) ?s)"
    by (rule Cons.IH [OF inv' q' Cons.prems(3) one(1)])
  then show ?case by simp
qed

lemma Exit_frame:
  "jobs (step fetch (Exit i) s) = jobs s"
  "jobsClosed (step fetch (Exit i) s) = jobsClosed s"
  "length (workers (step fetch (Exit i) s)) = length (workers s)"
  by simp_all

lemma Exit_others:
  "j \<noteq> i \<Longrightarrow> workers (step fetch (Exit i) s) ! j = workers s ! j"
  by simp

lemma Exit_self:
  assumes "jobsClosed s" and "i < length (workers s)" and "\<not> isSending (workers s ! i)"
  shows "workers (step fetch (Exit i) s) ! i = Exited"
  using assms by (cases "workers s ! i") simp_all

lemma Exit_quiet: "quiet s \<Longrightarrow> quiet (step fetch (Exit i) s)"
proof -
  assume q: "quiet s"
  have "\<not> isSending (workers (step fetch (Exit i) s) ! j)"
    if "j < length (workers s)" for j
  proof (cases "j = i")
    case True
    then show ?thesis
      using q that by (cases "workers s ! i") (auto simp: quiet_def list_all_length)
  next
    case False
    then show ?thesis
      using q that Exit_others [of j i fetch s] by (simp add: quiet_def list_all_length)
  qed
  then show ?thesis by (simp add: quiet_def list_all_length del: step.simps add: Exit_frame)
qed

lemma leave_workers:
  assumes "jobsClosed s" and "quiet s" and "k \<le> length (workers s)"
  shows "jobsClosed (exec fetch (map Exit [0..<k]) s)
       \<and> quiet (exec fetch (map Exit [0..<k]) s)
       \<and> length (workers (exec fetch (map Exit [0..<k]) s)) = length (workers s)
       \<and> (\<forall>i<k. workers (exec fetch (map Exit [0..<k]) s) ! i = Exited)"
  using assms
proof (induction k)
  case 0
  then show ?case by simp
next
  case (Suc k)
  let ?s = "exec fetch (map Exit [0..<k]) s"
  have IH: "jobsClosed ?s" "quiet ?s" "length (workers ?s) = length (workers s)"
      "\<forall>i<k. workers ?s ! i = Exited"
    using Suc by simp_all
  have ex: "exec fetch (map Exit [0..<Suc k]) s = step fetch (Exit k) ?s"
    by (simp add: exec_append)
  have k: "k < length (workers ?s)" using IH(3) Suc.prems by simp
  then have ns: "\<not> isSending (workers ?s ! k)"
    using IH(2) by (simp add: quiet_def list_all_length)
  have "workers (step fetch (Exit k) ?s) ! i = Exited" if "i < Suc k" for i
  proof (cases "i = k")
    case True
    then show ?thesis using Exit_self [OF IH(1) k ns] by simp
  next
    case False
    then show ?thesis using Exit_others [of i k fetch ?s] IH(4) that by simp
  qed
  then show ?case
    unfolding ex using IH Exit_quiet [OF IH(2), of fetch k]
    by (simp add: Exit_frame del: step.simps)
qed

lemma CloseJobs_quiet: "quiet (step fetch CloseJobs s) = quiet s"
  by (simp add: quiet_def)

lemma drain_returns:
  assumes inv: "poolInv fetch offsets s" and ne: "offsets \<noteq> []"
  shows "returned (exec fetch (drain s) s) \<noteq> None"
proof -
  let ?n = "length (workers s)"
  let ?s1 = "exec fetch (map Deliver [0..<?n]) s"
  let ?s2 = "exec fetch (concat (map (\<lambda>offs. [Take 0, Deliver 0]) (jobs s))) ?s1"
  let ?s3 = "step fetch CloseJobs ?s2"
  let ?s4 = "exec fetch (map Exit [0..<?n]) ?s3"
  let ?s5 = "step fetch CloseResults ?s4"
  have run: "exec fetch (drain s) s = step fetch Return ?s5"
    by (simp add: drain_def exec_append del: step.simps)
  have inv1: "poolInv fetch offsets ?s1" by (rule poolInv_exec [OF inv])
  have q1: "quiet ?s1" by (rule flush_quiet)
  have j1: "jobs ?s1 = jobs s" and l1: "length (workers ?s1) = ?n"
    using flush_workers [of ?n s fetch] by simp_all
  have s2: "jobs ?s2 = []" "quiet ?s2"
    using serve_all [OF inv1 q1 ne j1] by simp_all
  have inv2: "poolInv fetch offsets ?s2" by (rule poolInv_exec [OF inv1])
  have l2: "length (workers ?s2) = ?n"
    using poolInvD(12) [OF inv2] poolInvD(12) [OF inv] by simp
  have c3: "jobsClosed ?s3" using s2(1) by simp
  have q3: "quiet ?s3" using s2(2) by (simp only: CloseJobs_quiet)
  have l3: "length (workers ?s3) = ?n" using l2 by simp
  have s4: "jobsClosed ?s4" "length (workers ?s4) = ?n"
      "\<forall>i<?n. workers ?s4 ! i = Exited"
    using leave_workers [OF c3 q3, of ?n fetch] l3 by simp_all
  have "list_all (\<lambda>wk. wk = Exited) (workers ?s4)"
    using s4(2,3) by (simp add: list_all_length)
  then have "resultsClosed ?s5" using s4(1) by simp
  then have "returned (step fetch Return ?s5) \<noteq> None" by simp
  then show ?thesis unfolding run .
qed

lemma run_can_return:
  "returned (runTrackPageWorkers
               (schedule @ drain (runTrackPageWorkers schedule ctx offsets fetch))
               ctx offsets fetch) \<noteq> None"
proof (cases "offsets = []")
  case True
  then show ?thesis by (simp add: runTrackPageWorkers_def)
next
  case False
  have "poolInv fetch offsets (exec fetch schedule (started ctx offsets))"
    by (rule poolInv_exec [OF poolInv_started])
  then have "returned (exec fetch (drain (exec fetch schedule (started ctx offsets)))
                         (exec fetch schedule (started ctx offsets))) \<noteq> None"
    using False by (rule drain_returns)
  then show ?thesis using False by (simp add: runTrackPageWorkers_def exec_append)
qed

lemmas run_simps =
  runTrackPageWorkers_def started_def spotifyWorkerCount_def Let_def workerJob_def
  collect_def finish_def numeral_2_eq_2

subsection \<open>The claims\<close>

text \<open>
  Claim C5. Under every schedule the call has spawned \<open>min 8 n\<close> workers for \<open>n\<close>
  offsets; with no offsets it spawns no worker and returns at once the nil slice and
  no error.
\<close>

theorem workers_spawned:
  "length (workers (runTrackPageWorkers schedule ctx offsets fetch)) = min 8 (length offsets)
   \<and> workers (runTrackPageWorkers schedule ctx [] fetch) = []
   \<and> returned (runTrackPageWorkers schedule ctx [] fetch) = Some (None, None)"
proof (cases "offsets = []")
  case True
  then show ?thesis by (simp add: runTrackPageWorkers_def)
next
  case False
  then show ?thesis
    using poolInvD(12) [OF poolInv_run [OF False, of fetch schedule ctx]]
    by (simp add: runTrackPageWorkers_def spotifyWorkerCount_def)
qed

text \<open>
  Claim C4. If the fetch of some offset fails, every call that returns returns the nil
  slice and the error of the first failed result in arrival order, wrapped with that
  result's offset; that result is a page of the call whose fetch failed with this
  error or which was skipped because the context had ended. And the call can return:
  every schedule can be continued to one under which it does.
\<close>

theorem first_error_is_returned:
  fixes fetch :: "int \<Rightarrow> 'a list option \<times> error option"
  defines "run \<equiv> \<lambda>schedule ctx offsets. runTrackPageWorkers schedule ctx offsets fetch"
  assumes "\<exists>offs\<in>set offsets. snd (fetch offs) \<noteq> None"
  shows "(returned (run schedule ctx offsets) = Some out \<longrightarrow>
           (\<exists>res e. find (\<lambda>r. err r \<noteq> None) (arrived (run schedule ctx offsets)) = Some res
              \<and> err res = Some e
              \<and> offset res \<in> set offsets
              \<and> (snd (fetch (offset res)) = Some e \<or> ctxErr (run schedule ctx offsets) = Some e)
              \<and> out = (None, Some (FailedFetchingTracks (offset res) e))))
       \<and> returned (run (schedule @ drain (run schedule ctx offsets)) ctx offsets) \<noteq> None"
proof -
  have ne: "offsets \<noteq> []" using assms(2) by auto
  have inv: "poolInv fetch offsets (runTrackPageWorkers schedule ctx offsets fetch)"
    by (rule poolInv_run [OF ne])
  show ?thesis
    unfolding run_def
    using run_failure [OF inv _ assms(2)] run_can_return [of schedule ctx offsets fetch]
    by blast
qed

theorem first_error_is_returned_witness:
  "returned (runTrackPageWorkers twoWorkerRun None [50, 100] failingFetch)
     = Some (None, Some (FailedFetchingTracks 100 (FetchPageFailed 100 (OSError offline))))"
proof -
  have run: "returned (runTrackPageWorkers twoWorkerRun None [50, 100] failingFetch)
     = Some (None, Some (FailedFetchingTracks 100 (FetchPageFailed 100 (OSError offline))))"
    by (simp add: run_simps twoWorkerRun_def failingFetch_def)
  have bad: "\<exists>offs\<in>set [50, 100]. snd (failingFetch offs) \<noteq> None"
    by (auto simp: failingFetch_def)
  show ?thesis
    using first_error_is_returned [OF bad, of twoWorkerRun None
            "(None, Some (FailedFetchingTracks 100 (FetchPageFailed 100 (OSError offline))))"]
      run
    by simp
qed

text \<open>
  Claim C3, as amended. If the fetch of every offset succeeds, every call that returns
  while its context has not ended returns no error, and every call that returns no
  error returns the pages of the sequential fetch in ascending order of their
  offsets, without the pages whose slice is nil; the tracks of the returned pages,
  concatenated, are those of the sequential fetch in ascending order. If moreover no
  page is nil, the returned pages are exactly the pages of the sequential fetch,
  sorted by offset, and they come in the order of the sequential fetch when the
  offsets are ascending. A call that returns an error returns the nil slice and the
  error of its context, bare or wrapped with the offset of a page that was skipped.
  And the call can return: every schedule can be continued to one under which it
  does.
\<close>

theorem coordinator_matches_sequential_fetch:
  fixes fetch :: "int \<Rightarrow> 'a list option \<times> error option"
  defines "run \<equiv> \<lambda>schedule ctx offsets. runTrackPageWorkers schedule ctx offsets fetch"
  assumes "\<forall>offs\<in>set offsets. snd (fetch offs) = None"
  shows "(returned (run schedule ctx offsets) = Some out \<longrightarrow>
           (ctxErr (run schedule ctx offsets) = None \<longrightarrow> snd out = None)
           \<and> (snd out = None \<longrightarrow>
                elems (fst out)
                  = filter (\<lambda>r. tracks r \<noteq> None) (sequentialFetch fetch (sort offsets))
                \<and> sorted (map offset (elems (fst out)))
                \<and> concat (map (\<lambda>r. elems (tracks r)) (elems (fst out)))
                    = concat (map (\<lambda>r. elems (tracks r))
                                (sequentialFetch fetch (sort offsets)))
                \<and> ((\<forall>offs\<in>set offsets. fst (fetch offs) \<noteq> None) \<longrightarrow>
                      elems (fst out) = sort_key offset (sequentialFetch fetch offsets)
                      \<and> mset (elems (fst out)) = mset (sequentialFetch fetch offsets)
                      \<and> (sorted offsets \<longrightarrow>
                            elems (fst out) = sequentialFetch fetch offsets)))
           \<and> (snd out \<noteq> None \<longrightarrow>
                fst out = None
                \<and> (\<exists>e. ctxErr (run schedule ctx offsets) = Some e
                       \<and> (snd out = Some e
                           \<or> (\<exists>offs\<in>set offsets.
                                 snd out = Some (FailedFetchingTracks offs e))))))
       \<and> returned (run (schedule @ drain (run schedule ctx offsets)) ctx offsets) \<noteq> None"
proof (intro conjI impI)
  show "returned (run (schedule @ drain (run schedule ctx offsets)) ctx offsets) \<noteq> None"
    unfolding run_def by (rule run_can_return)
next
  assume ret: "returned (run schedule ctx offsets) = Some out"
    and ctx: "ctxErr (run schedule ctx offsets) = None"
  show "snd out = None"
  proof (cases "offsets = []")
    case True
    then show ?thesis using ret by (auto simp: run_def runTrackPageWorkers_def)
  next
    case False
    show ?thesis
      using run_no_error [OF poolInv_run [OF False] _ assms(2)] ret ctx
      by (simp add: run_def)
  qed
next
  assume ret: "returned (run schedule ctx offsets) = Some out" and failed: "snd out \<noteq> None"
  have ne: "offsets \<noteq> []"
    using ret failed by (auto simp: run_def runTrackPageWorkers_def)
  have both: "fst out = None
       \<and> (\<exists>e. ctxErr (run schedule ctx offsets) = Some e
              \<and> (snd out = Some e
                  \<or> (\<exists>offs\<in>set offsets. snd out = Some (FailedFetchingTracks offs e))))"
    using run_context_error [OF poolInv_run [OF ne] _ assms(2) failed] ret
    by (simp add: run_def)
  show "fst out = None" using both by simp
  show "\<exists>e. ctxErr (run schedule ctx offsets) = Some e
              \<and> (snd out = Some e
                  \<or> (\<exists>offs\<in>set offsets. snd out = Some (FailedFetchingTracks offs e)))"
    using both by simp
next
  assume ret: "returned (run schedule ctx offsets) = Some out" and noerr: "snd out = None"
  show kept: "elems (fst out)
          = filter (\<lambda>r. tracks r \<noteq> None) (sequentialFetch fetch (sort offsets))"
  proof (cases "offsets = []")
    case True
    then show ?thesis
      using ret by (auto simp: run_def runTrackPageWorkers_def sequentialFetch_def)
  next
    case False
    show ?thesis
      using run_success [OF poolInv_run [OF False] _ assms(2) noerr] ret
      by (simp add: run_def)
  qed
  have "sorted (map offset (sequentialFetch fetch (sort offsets)))"
    by (simp add: sequentialFetch_def comp_def)
  then show "sorted (map offset (elems (fst out)))"
    unfolding kept by (rule sorted_filter)
  show "concat (map (\<lambda>r. elems (tracks r)) (elems (fst out)))
          = concat (map (\<lambda>r. elems (tracks r)) (sequentialFetch fetch (sort offsets)))"
    unfolding kept by (rule tracks_of_kept_pages)
  assume nonnil: "\<forall>offs\<in>set offsets. fst (fetch offs) \<noteq> None"
  then have "filter (\<lambda>r. tracks r \<noteq> None) (sequentialFetch fetch (sort offsets))
               = sequentialFetch fetch (sort offsets)"
    by (simp add: sequentialFetch_def)
  then have full: "elems (fst out) = sequentialFetch fetch (sort offsets)"
    using kept by simp
  then show sorted_pages: "elems (fst out) = sort_key offset (sequentialFetch fetch offsets)"
    by (simp add: sequentialFetch_sorted)
  then show "mset (elems (fst out)) = mset (sequentialFetch fetch offsets)" by simp
  assume "sorted offsets"
  then show "elems (fst out) = sequentialFetch fetch offsets"
    using full by (simp add: sort_key_id_if_sorted)
qed

theorem coordinator_matches_sequential_fetch_witness:
  "returned (runTrackPageWorkers twoWorkerRun None [100, 50] pageOf)
     = Some (Some [\<lparr>offset = 50, tracks = Some [''track at 50''], err = None\<rparr>,
                   \<lparr>offset = 100, tracks = Some [''track at 100''], err = None\<rparr>], None)
   \<and> sort_key offset (sequentialFetch pageOf [100, 50])
     = [\<lparr>offset = 50, tracks = Some [''track at 50''], err = None\<rparr>,
        \<lparr>offset = 100, tracks = Some [''track at 100''], err = None\<rparr>]"
proof -
  have run: "returned (runTrackPageWorkers twoWorkerRun None [100, 50] pageOf)
     = Some (Some [\<lparr>offset = 50, tracks = Some [''track at 50''], err = None\<rparr>,
                   \<lparr>offset = 100, tracks = Some [''track at 100''], err = None\<rparr>], None)"
    by (simp add: run_simps twoWorkerRun_def pageOf_def decimal.simps char_of_def
        bit_Suc_0_iff)
  have ctx: "ctxErr (runTrackPageWorkers twoWorkerRun None [100, 50] pageOf) = None"
    by (simp add: run_simps twoWorkerRun_def pageOf_def)
  have ok: "\<forall>offs\<in>set [100, 50]. snd (pageOf offs) = None"
    by (simp add: pageOf_def)
  have nonnil: "\<forall>offs\<in>set [100, 50]. fst (pageOf offs) \<noteq> None"
    by (simp add: pageOf_def)
  show ?thesis
    using coordinator_matches_sequential_fetch [OF ok, of twoWorkerRun None
            "(Some [\<lparr>offset = 50, tracks = Some [''track at 50''], err = None\<rparr>,
                    \<lparr>offset = 100, tracks = Some [''track at 100''], err = None\<rparr>], None)"]
      run ctx nonnil
    by (simp add: sequentialFetch_def pageOf_def decimal.simps char_of_def bit_Suc_0_iff)
qed

text \<open>
  The claim as the specification states it fails in two ways. A fetch that succeeds
  with the nil slice has its page dropped by the collector
  (\<^verbatim>\<open>if res.tracks != nil\<close>), so the call returns no page where the sequential fetch
  has one. And when the context ends after every page has been fetched, the call
  returns the context's error and no page.
\<close>

theorem coordinator_counterexample:
  "snd (emptyPages 50) = None
   \<and> returned (runTrackPageWorkers oneWorkerRun None [50] emptyPages) = Some (Some [], None)
   \<and> sequentialFetch emptyPages [50] = [\<lparr>offset = 50, tracks = None, err = None\<rparr>]
   \<and> snd (pageOf 50) = None
   \<and> returned (runTrackPageWorkers cancelledRun None [50] pageOf)
       = Some (None, Some ContextDone)"
  by (simp add: run_simps oneWorkerRun_def cancelledRun_def emptyPages_def pageOf_def
      sequentialFetch_def)

text \<open>
  The fetch functions the program passes never succeed with the nil slice, so the
  condition of the theorem holds for them whenever their requests succeed.
\<close>

lemma pageFetcher_never_nil:
  "snd (pageFetcher getJSON convertTrackToAlbumTrack offs) = None
     \<Longrightarrow> fst (pageFetcher getJSON convertTrackToAlbumTrack offs) \<noteq> None"
  by (cases "getJSON offs") (simp_all add: pageFetcher_def convertSavedTrackItems_def)

end
